theory Spec2Isabelle
  imports Main
begin

section \<open>The daily TripAdvisor sync scheduler\<close>

text \<open>
  A shallow embedding of the class \<^verbatim>\<open>TripAdvisorSyncScheduler\<close>. The two tables the
  scheduler talks to (\<^verbatim>\<open>profiles\<close>, \<^verbatim>\<open>review_sync_jobs\<close>) are lists of rows, the
  scheduler's fields and the tables are threaded through every method as one state
  record, and the outcome of every remote call (store query, worker request) is read
  from an environment, so that each error branch of the source is a branch here.
\<close>

subsection \<open>Utility: \<^verbatim>\<open>chunkArray\<close>\<close>

text \<open>
  \<^verbatim>\<open>array.slice(b, e)\<close> for non-negative integer bounds: the elements at the indices
  \<open>b \<le> k < min e (length array)\<close>.
\<close>

definition slice :: "'a list \<Rightarrow> nat \<Rightarrow> nat \<Rightarrow> 'a list" where
  "slice array b e = drop b (take e array)"

text \<open>
  The loop \<^verbatim>\<open>for (let i = 0; i < array.length; i += size) chunks.push(array.slice(i, i + size))\<close>.
  With \<open>size = 0\<close> (\<open>sz\<close> below) and a non-empty array the source never leaves the loop, so the loop
  is a partial function and not returning is the value \<open>None\<close>.
\<close>

partial_function (option) chunkLoop ::
  "'a list \<Rightarrow> nat \<Rightarrow> nat \<Rightarrow> 'a list list \<Rightarrow> 'a list list option" where
  "chunkLoop array sz i chunks =
     (if i < length array
      then chunkLoop array sz (i + sz) (chunks @ [slice array i (i + sz)])
      else Some chunks)"

declare chunkLoop.simps [code]

definition chunkArray :: "'a list \<Rightarrow> nat \<Rightarrow> 'a list list option" where
  "chunkArray array sz = chunkLoop array sz 0 []"

text \<open>
  The partition the loop is compared with in the proofs: cut \<open>n\<close> elements off the
  front until nothing is left.
\<close>

function chunks_ref :: "nat \<Rightarrow> 'a list \<Rightarrow> 'a list list" where
  "chunks_ref n xs =
     (if n = 0 \<or> xs = [] then [] else take n xs # chunks_ref n (drop n xs))"
  by pat_completeness auto
termination
  by (relation "measure (\<lambda>(n, xs). length xs)") auto

subsection \<open>Rows of the two tables\<close>

text \<open>
  Timestamps are milliseconds since the Unix epoch (UTC), the value of
  \<^verbatim>\<open>Date.getTime()\<close>; the ISO strings the source sends are their renderings.
\<close>

type_synonym timestamp = nat

text \<open>
  A row of \<^verbatim>\<open>profiles\<close>, with the columns the scheduler reads or filters on. The
  table has a field prefix, since \<^verbatim>\<open>SyncAccount\<close> below carries the same names.
\<close>

record profile =
  p_user_id :: string
  p_company_name :: string
  p_tripadvisor_location_id :: "string option"
  p_tripadvisor_url_locked_at :: "timestamp option"
  p_last_tripadvisor_sync_at :: "timestamp option"
  p_timezone :: "string option"

text \<open>
  \<^verbatim>\<open>interface SyncAccount\<close>: the columns a select returns. The location is kept
  nullable, as the column is; the queries below only return rows where it is set.
\<close>

record SyncAccount =
  user_id :: string
  company_name :: string
  tripadvisor_location_id :: "string option"
  last_tripadvisor_sync_at :: "timestamp option"
  timezone :: "string option"

datatype job_status = Pending | Running | Completed | Failed

text \<open>
  A row of \<^verbatim>\<open>review_sync_jobs\<close>, with the columns the source writes or filters on
  (\<^verbatim>\<open>id\<close> is \<open>job_id\<close> here, \<^verbatim>\<open>error\<close> is \<open>job_error\<close>). Row identifiers are
  assigned by the store; they are numbers here, fresh for every insert.
\<close>

record job =
  job_id :: nat
  tour_operator_id :: string
  platform :: string
  status :: job_status
  full_history :: bool
  total_available :: nat
  imported_count :: nat
  created_at :: timestamp
  started_at :: "timestamp option"
  completed_at :: "timestamp option"
  job_error :: "string option"

subsection \<open>The environment and the state\<close>

text \<open>
  What a remote call does is not decided by the scheduler. A store query is answered
  (\<open>QOk\<close>: the query runs on the tables), or comes back with an error object carrying
  a code (\<open>QError\<close>), or the client throws (\<open>QThrow\<close>). The worker answers with a
  success status (\<open>WOk\<close>), with another status and a body (\<open>WNotOk\<close>), or
  \<^verbatim>\<open>fetch\<close> throws (\<open>WThrow\<close>).
\<close>

datatype query_outcome = QOk | QError string | QThrow

datatype worker_outcome = WOk | WNotOk nat string | WThrow

text \<open>
  One outcome per remote call, keyed by what the call is about (the user or the job).
  \<open>created_at_default\<close> is the column default of \<^verbatim>\<open>created_at\<close>, which the store's
  schema fixes and the source does not: the value the store assigns when the
  scheduler's clock reads \<open>t\<close>.
\<close>

record env =
  accounts_query :: query_outcome
  dedup_query :: "string \<Rightarrow> query_outcome"
  insert_query :: "string \<Rightarrow> query_outcome"
  worker_call :: "nat \<Rightarrow> string \<Rightarrow> worker_outcome"
  update_query :: "nat \<Rightarrow> query_outcome"
  profile_query :: "string \<Rightarrow> query_outcome"
  total_count_query :: query_outcome
  active_count_query :: query_outcome
  completed_count_query :: query_outcome
  failed_count_query :: query_outcome
  created_at_default :: "timestamp \<Rightarrow> timestamp"

text \<open>
  The effects of a run, in the order they are issued. Every entry of the log is paired
  with the value \<^verbatim>\<open>isRunning\<close> had when the effect was issued.
\<close>

datatype event =
    EvAccountsQuery
  | EvSyncStart string
  | EvDedupQuery string
  | EvInsert string
  | EvWorkerCall nat string
  | EvUpdate nat
  | EvSleep nat
  | EvSyncError string

text \<open>
  The scheduler's two fields (\<^verbatim>\<open>isRunning\<close>, \<^verbatim>\<open>cronJob\<close>: the cron expression of
  the registered task, if any), the two tables, the next fresh row identifier, the
  clock and the log. Only \<^verbatim>\<open>sleep\<close> advances the clock: a remote call takes no
  time here.
\<close>

record sched_state =
  isRunning :: bool
  cronJob :: "string option"
  profiles :: "profile list"
  review_sync_jobs :: "job list"
  next_job_id :: nat
  now :: timestamp
  events :: "(bool \<times> event) list"

datatype exn = Thrown string

definition emit :: "event \<Rightarrow> sched_state \<Rightarrow> sched_state" where
  "emit e s = s\<lparr>events := events s @ [(isRunning s, e)]\<rparr>"

text \<open>The field initialisers of the class: \<^verbatim>\<open>isRunning = false\<close>, \<^verbatim>\<open>cronJob = null\<close>.\<close>

definition new_scheduler ::
  "profile list \<Rightarrow> job list \<Rightarrow> nat \<Rightarrow> timestamp \<Rightarrow> sched_state" where
  "new_scheduler ps js n t =
     \<lparr>isRunning = False, cronJob = None, profiles = ps, review_sync_jobs = js,
      next_job_id = n, now = t, events = []\<rparr>"

subsection \<open>Store queries\<close>

text \<open>
  The answer of the store client is an object with \<^verbatim>\<open>data\<close> and \<^verbatim>\<open>error\<close>; the error
  is represented by its code. \<^verbatim>\<open>.single()\<close> asks for exactly one row: any other
  number of rows is the error \<^verbatim>\<open>PGRST116\<close> with no data.
\<close>

type_synonym 'a response = "'a option \<times> string option"

fun single :: "'a list \<Rightarrow> 'a response" where
  "single [r] = (Some r, None)"
| "single rs = (None, Some ''PGRST116'')"

text \<open>
  The answer to a query that would give \<open>r\<close> on the tables. A throw has no answer:
  every caller below tests for \<open>QThrow\<close> before it reads one.
\<close>

definition answer :: "query_outcome \<Rightarrow> 'a response \<Rightarrow> 'a response" where
  "answer outcome r =
     (case outcome of
        QOk \<Rightarrow> r
      | QError code \<Rightarrow> (None, Some code)
      | QThrow \<Rightarrow> (None, None))"

text \<open>\<^verbatim>\<open>.order('created_at', { ascending: false })\<close>; the order among equal keys is the store's.\<close>

definition order_desc :: "('a \<Rightarrow> nat) \<Rightarrow> 'a list \<Rightarrow> 'a list" where
  "order_desc f rows = rev (sort_key f rows)"

text \<open>
  The filter of the sweep and of the statistics:
  \<^verbatim>\<open>.not('tripadvisor_location_id', 'is', null).not('tripadvisor_url_locked_at', 'is', null)\<close>.
\<close>

definition locked_integration :: "profile \<Rightarrow> bool" where
  "locked_integration p \<longleftrightarrow>
     p_tripadvisor_location_id p \<noteq> None \<and> p_tripadvisor_url_locked_at p \<noteq> None"

definition select_account :: "profile \<Rightarrow> SyncAccount" where
  "select_account p =
     \<lparr>user_id = p_user_id p, company_name = p_company_name p,
      tripadvisor_location_id = p_tripadvisor_location_id p,
      last_tripadvisor_sync_at = p_last_tripadvisor_sync_at p,
      timezone = p_timezone p\<rparr>"

text \<open>
  The filter of the dedup query: \<^verbatim>\<open>.eq('tour_operator_id', userId)\<close>,
  \<^verbatim>\<open>.eq('platform', 'tripadvisor')\<close>, \<^verbatim>\<open>.in('status', ['pending', 'running'])\<close>.
\<close>

definition active_status :: "job_status \<Rightarrow> bool" where
  "active_status st \<longleftrightarrow> st = Pending \<or> st = Running"

definition active_job_of :: "string \<Rightarrow> job \<Rightarrow> bool" where
  "active_job_of userId j \<longleftrightarrow>
     tour_operator_id j = userId \<and> platform j = ''tripadvisor'' \<and> active_status (status j)"

subsection \<open>The private methods\<close>

text \<open>
  \<^verbatim>\<open>getAccountsForSync\<close>: an error object is turned into a throw, and every throw is
  caught by the method itself, which then returns the empty list.
\<close>

definition getAccountsForSync ::
  "env \<Rightarrow> sched_state \<Rightarrow> (exn + SyncAccount list) \<times> sched_state" where
  "getAccountsForSync e s =
     (let s1 = emit EvAccountsQuery s in
      case accounts_query e of
        QOk \<Rightarrow> (Inr (map select_account (filter locked_integration (profiles s1))), s1)
      | QError msg \<Rightarrow> (Inr [], s1)
      | QThrow \<Rightarrow> (Inr [], s1))"

text \<open>
  \<^verbatim>\<open>getRunningJob\<close>: with an error whose code is not \<^verbatim>\<open>PGRST116\<close> the method returns
  null; otherwise it returns \<^verbatim>\<open>data\<close>, which is null when no row matched. A throw
  is caught and gives null.
\<close>

definition getRunningJob ::
  "env \<Rightarrow> string \<Rightarrow> sched_state \<Rightarrow> job option \<times> sched_state" where
  "getRunningJob e userId s =
     (let s1 = emit (EvDedupQuery userId) s in
      case dedup_query e userId of
        QThrow \<Rightarrow> (None, s1)
      | outcome \<Rightarrow>
          (let (data, err) =
                 answer outcome
                   (single (take 1 (order_desc created_at
                      (filter (active_job_of userId) (review_sync_jobs s1)))))
           in case err of
                Some code \<Rightarrow> if code \<noteq> ''PGRST116'' then (None, s1) else (data, s1)
              | None \<Rightarrow> (data, s1)))"

text \<open>
  \<^verbatim>\<open>createSyncJob\<close>: the inserted row and, on success, the row read back. The
  columns the insert does not name (\<^verbatim>\<open>completed_at\<close>, \<^verbatim>\<open>error\<close>) are null.
\<close>

definition createSyncJob ::
  "env \<Rightarrow> string \<Rightarrow> bool \<Rightarrow> sched_state \<Rightarrow> job option \<times> sched_state" where
  "createSyncJob e userId fullHistory s =
     (let s1 = emit (EvInsert userId) s in
      case insert_query e userId of
        QOk \<Rightarrow>
          (let row = \<lparr>job_id = next_job_id s1, tour_operator_id = userId,
                      platform = ''tripadvisor'', status = Pending,
                      full_history = fullHistory, total_available = 0, imported_count = 0,
                      created_at = created_at_default e (now s1),
                      started_at = Some (now s1), completed_at = None, job_error = None\<rparr>
           in (Some row,
               s1\<lparr>review_sync_jobs := review_sync_jobs s1 @ [row],
                  next_job_id := Suc (next_job_id s1)\<rparr>))
      | QError code \<Rightarrow> (None, s1)
      | QThrow \<Rightarrow> (None, s1))"

text \<open>\<^verbatim>\<open>triggerWorkerSync\<close>: true exactly when the worker answers with a success status.\<close>

definition triggerWorkerSync ::
  "env \<Rightarrow> nat \<Rightarrow> SyncAccount \<Rightarrow> sched_state \<Rightarrow> bool \<times> sched_state" where
  "triggerWorkerSync e jobId account s =
     (let s1 = emit (EvWorkerCall jobId (user_id account)) s in
      case worker_call e jobId (user_id account) of
        WOk \<Rightarrow> (True, s1)
      | WNotOk code body \<Rightarrow> (False, s1)
      | WThrow \<Rightarrow> (False, s1))"

text \<open>
  \<^verbatim>\<open>markJobFailed\<close>: the update of every row with the given id. The answer of the
  store is not inspected and a throw is caught.
\<close>

definition markJobFailed :: "env \<Rightarrow> nat \<Rightarrow> string \<Rightarrow> sched_state \<Rightarrow> sched_state" where
  "markJobFailed e jobId errorMessage s =
     (let s1 = emit (EvUpdate jobId) s in
      case update_query e jobId of
        QOk \<Rightarrow>
          s1\<lparr>review_sync_jobs :=
               map (\<lambda>j. if job_id j = jobId
                        then j\<lparr>status := Failed, job_error := Some errorMessage,
                               completed_at := Some (now s1)\<rparr>
                        else j)
                   (review_sync_jobs s1)\<rparr>
      | QError code \<Rightarrow> s1
      | QThrow \<Rightarrow> s1)"

definition logSyncError :: "string \<Rightarrow> sched_state \<Rightarrow> sched_state" where
  "logSyncError errorType s = emit (EvSyncError errorType) s"

text \<open>\<^verbatim>\<open>sleep\<close>: the timer fires after the given number of milliseconds.\<close>

definition sleep :: "nat \<Rightarrow> sched_state \<Rightarrow> (exn + unit) \<times> sched_state" where
  "sleep ms s = (Inr (), emit (EvSleep ms) (s\<lparr>now := now s + ms\<rparr>))"

text \<open>
  \<^verbatim>\<open>syncAccount\<close>. None of the methods it awaits throws (each returns null or false
  instead), so the \<^verbatim>\<open>catch\<close> of the method has nothing to catch and the promise
  always resolves.
\<close>

definition syncAccount ::
  "env \<Rightarrow> SyncAccount \<Rightarrow> sched_state \<Rightarrow> (exn + unit) \<times> sched_state" where
  "syncAccount e account s =
     (let s0 = emit (EvSyncStart (user_id account)) s;
          (existingJob, s1) = getRunningJob e (user_id account) s0
      in case existingJob of
           Some running \<Rightarrow> (Inr (), s1)
         | None \<Rightarrow>
             (let (created, s2) = createSyncJob e (user_id account) False s1
              in case created of
                   None \<Rightarrow> (Inr (), s2)
                 | Some j \<Rightarrow>
                     (let (success, s3) = triggerWorkerSync e (job_id j) account s2
                      in if success then (Inr (), s3)
                         else (Inr (), markJobFailed e (job_id j)
                                         ''Failed to trigger worker sync'' s3))))"

subsection \<open>The sweep\<close>

text \<open>
  \<^verbatim>\<open>runDailySync\<close> reaches the store and the worker only through three methods of
  the object: \<^verbatim>\<open>getAccountsForSync\<close>, \<^verbatim>\<open>syncAccount\<close> and \<^verbatim>\<open>sleep\<close>. The sweep is
  written over any three such methods, each of which may throw, so that the
  \<^verbatim>\<open>catch\<close> and \<^verbatim>\<open>finally\<close> blocks of the sweep are branches that can be taken.
\<close>

record ops =
  op_getAccountsForSync :: "sched_state \<Rightarrow> (exn + SyncAccount list) \<times> sched_state"
  op_syncAccount :: "SyncAccount \<Rightarrow> sched_state \<Rightarrow> (exn + unit) \<times> sched_state"
  op_sleep :: "nat \<Rightarrow> sched_state \<Rightarrow> (exn + unit) \<times> sched_state"

text \<open>
  \<^verbatim>\<open>await Promise.allSettled(batch.map(account => this.syncAccount(account)))\<close>: every
  account of the batch is started, in the order of the batch, and a rejected promise is
  a settled one, so the result of each call is dropped. The calls are run one after
  the other here. In the source all calls are started before the first answer of the
  store arrives and their remote calls interleave (\<open>interleaved\<close> below has
  these runs): the rows of a batch can then be inserted in another order, and an
  account that is twice in a batch gets two rows there and one here.
\<close>

fun allSettled :: "ops \<Rightarrow> SyncAccount list \<Rightarrow> sched_state \<Rightarrow> sched_state" where
  "allSettled os [] s = s"
| "allSettled os (account # batch) s = allSettled os batch (snd (op_syncAccount os account s))"

text \<open>
  In the source the calls of a batch run concurrently: each \<^verbatim>\<open>syncAccount\<close> is
  suspended at every \<^verbatim>\<open>await\<close>, and the remote calls of different accounts reach
  the store in any order. A \<open>task\<close> is what is left of one call: the remote call it
  is about to make, or \<open>Settled\<close>. \<open>advance\<close> runs one task up to its next
  \<^verbatim>\<open>await\<close>, following the body of \<^verbatim>\<open>syncAccount\<close> line by line.
\<close>

datatype task =
    Starting SyncAccount
  | AwaitDedup SyncAccount
  | AwaitInsert SyncAccount
  | AwaitWorker SyncAccount job
  | AwaitUpdate SyncAccount job
  | Settled

fun advance :: "env \<Rightarrow> task \<times> sched_state \<Rightarrow> task \<times> sched_state" where
  "advance e (Starting account, s) =
     (AwaitDedup account, emit (EvSyncStart (user_id account)) s)"
| "advance e (AwaitDedup account, s) =
     (case getRunningJob e (user_id account) s of
        (Some running, s1) \<Rightarrow> (Settled, s1)
      | (None, s1) \<Rightarrow> (AwaitInsert account, s1))"
| "advance e (AwaitInsert account, s) =
     (case createSyncJob e (user_id account) False s of
        (None, s2) \<Rightarrow> (Settled, s2)
      | (Some j, s2) \<Rightarrow> (AwaitWorker account j, s2))"
| "advance e (AwaitWorker account j, s) =
     (case triggerWorkerSync e (job_id j) account s of
        (True, s3) \<Rightarrow> (Settled, s3)
      | (False, s3) \<Rightarrow> (AwaitUpdate account j, s3))"
| "advance e (AwaitUpdate account j, s) =
     (Settled, markJobFailed e (job_id j) ''Failed to trigger worker sync'' s)"
| "advance e (Settled, s) = (Settled, s)"

text \<open>
  \<open>interleaved e c c'\<close>: from the configuration \<open>c\<close> (the tasks of a batch and the
  state) the configuration \<open>c'\<close> is reached by advancing the tasks one step at a time,
  in any order.
\<close>

inductive interleaved ::
  "env \<Rightarrow> task list \<times> sched_state \<Rightarrow> task list \<times> sched_state \<Rightarrow> bool"
  for e :: env and c :: "task list \<times> sched_state" where
  begun: "interleaved e c c"
| step: "interleaved e c (ts, s) \<Longrightarrow> i < length ts \<Longrightarrow> advance e (ts ! i, s) = (t', s') \<Longrightarrow>
         interleaved e c (ts[i := t'], s')"

text \<open>
  The loop \<^verbatim>\<open>for (let i = 0; i < batches.length; i++)\<close>, with the pause after every
  batch but the last. A throw of \<^verbatim>\<open>sleep\<close> leaves the loop.
\<close>

function batchLoop ::
  "ops \<Rightarrow> SyncAccount list list \<Rightarrow> nat \<Rightarrow> sched_state \<Rightarrow> (exn + unit) \<times> sched_state" where
  "batchLoop os batches i s =
     (if i < length batches
      then (let s1 = allSettled os (batches ! i) s
            in if i < length batches - 1
               then (case op_sleep os 30000 s1 of
                       (Inl err, s2) \<Rightarrow> (Inl err, s2)
                     | (Inr u, s2) \<Rightarrow> batchLoop os batches (i + 1) s2)
               else batchLoop os batches (i + 1) s1)
      else (Inr (), s))"
  by pat_completeness auto
termination
  by (relation "measure (\<lambda>(os, batches, i, s). length batches - i)") auto

declare batchLoop.simps [simp del]

text \<open>
  The \<^verbatim>\<open>try\<close> block of \<^verbatim>\<open>runDailySync\<close>. \<open>None\<close> is a block that never returns,
  which only \<open>chunkArray\<close> could cause.
\<close>

definition sweepBody :: "ops \<Rightarrow> sched_state \<Rightarrow> ((exn + unit) \<times> sched_state) option" where
  "sweepBody os s =
     (case op_getAccountsForSync os s of
        (Inl err, s1) \<Rightarrow> Some (Inl err, s1)
      | (Inr accounts, s1) \<Rightarrow>
          if length accounts = 0 then Some (Inr (), s1)
          else (case chunkArray accounts 5 of
                  None \<Rightarrow> None
                | Some batches \<Rightarrow> Some (batchLoop os batches 0 s1)))"

text \<open>
  \<^verbatim>\<open>runDailySync\<close> over the three methods: the guard, the flag, the \<^verbatim>\<open>try\<close> block,
  the \<^verbatim>\<open>catch\<close> (which logs) and the \<^verbatim>\<open>finally\<close> (which clears the flag).
\<close>

definition runDailySync_with :: "ops \<Rightarrow> sched_state \<Rightarrow> sched_state option" where
  "runDailySync_with os s =
     (if isRunning s then Some s
      else (case sweepBody os (s\<lparr>isRunning := True\<rparr>) of
              None \<Rightarrow> None
            | Some (Inl err, s1) \<Rightarrow>
                Some ((logSyncError ''daily_sync_error'' s1)\<lparr>isRunning := False\<rparr>)
            | Some (Inr u, s1) \<Rightarrow> Some (s1\<lparr>isRunning := False\<rparr>)))"

definition scheduler_ops :: "env \<Rightarrow> ops" where
  "scheduler_ops e =
     \<lparr>op_getAccountsForSync = getAccountsForSync e, op_syncAccount = syncAccount e,
      op_sleep = sleep\<rparr>"

definition runDailySync :: "env \<Rightarrow> sched_state \<Rightarrow> sched_state option" where
  "runDailySync e = runDailySync_with (scheduler_ops e)"

subsection \<open>Manual trigger\<close>

text \<open>
  \<^verbatim>\<open>triggerManualSync\<close>. The argument is optional and the test \<^verbatim>\<open>if (userId)\<close> also
  sends the empty string to the sweep. The store query of the method is not inside a
  \<^verbatim>\<open>try\<close>: a throw rejects the promise (\<open>Inl\<close>). \<open>None\<close> is a call that never
  returns.
\<close>

definition triggerManualSync ::
  "env \<Rightarrow> string option \<Rightarrow> sched_state \<Rightarrow> (exn + sched_state) option" where
  "triggerManualSync e userId s =
     (case userId of
        None \<Rightarrow> map_option Inr (runDailySync e s)
      | Some u \<Rightarrow>
          if u = [] then map_option Inr (runDailySync e s)
          else (case profile_query e u of
                  QThrow \<Rightarrow> Some (Inl (Thrown ''profiles''))
                | outcome \<Rightarrow>
                    (case answer outcome
                            (single (filter (\<lambda>p. p_user_id p = u \<and>
                                                  p_tripadvisor_location_id p \<noteq> None)
                                            (profiles s))) of
                       (Some p, None) \<Rightarrow> Some (Inr (snd (syncAccount e (select_account p) s)))
                     | (data, err) \<Rightarrow> Some (Inr s))))"

subsection \<open>Statistics\<close>

record sync_stats =
  totalAccounts :: nat
  activeJobs :: nat
  completedToday :: nat
  failedToday :: nat

text \<open>
  \<^verbatim>\<open>new Date().toISOString().split('T')[0]\<close> is the UTC calendar day of the clock.
  A day has 86400000 milliseconds, so the day is the quotient, and the two bounds the
  source builds from it are \<^verbatim>\<open>T00:00:00Z\<close>, the first millisecond of the day, and
  \<^verbatim>\<open>T23:59:59Z\<close>, 86399 seconds later.
\<close>

definition utc_day :: "timestamp \<Rightarrow> nat" where
  "utc_day t = t div 86400000"

definition day_start :: "nat \<Rightarrow> timestamp" where
  "day_start d = d * 86400000"

definition day_2359 :: "nat \<Rightarrow> timestamp" where
  "day_2359 d = d * 86400000 + 86399000"

text \<open>
  A count query (\<^verbatim>\<open>{ count: 'exact' }\<close>): the number of matching rows, or null with an
  error. \<^verbatim>\<open>count || 0\<close> turns null into zero.
\<close>

definition count_of :: "query_outcome \<Rightarrow> 'a list \<Rightarrow> nat option" where
  "count_of outcome rows =
     (case outcome of
        QOk \<Rightarrow> Some (length rows)
      | QError code \<Rightarrow> None
      | QThrow \<Rightarrow> None)"

definition or_zero :: "nat option \<Rightarrow> nat" where
  "or_zero c = (case c of None \<Rightarrow> 0 | Some n \<Rightarrow> n)"

definition jobs_today :: "job_status \<Rightarrow> nat \<Rightarrow> job list \<Rightarrow> job list" where
  "jobs_today st today rows =
     filter (\<lambda>j. platform j = ''tripadvisor'' \<and> status j = st \<and>
                 day_start today \<le> created_at j \<and> created_at j < day_2359 today) rows"

text \<open>
  \<^verbatim>\<open>getSyncStats\<close>: four queries under one \<^verbatim>\<open>Promise.all\<close>; if one of them throws
  the \<^verbatim>\<open>catch\<close> returns four zeros.
\<close>

definition getSyncStats :: "env \<Rightarrow> sched_state \<Rightarrow> sync_stats" where
  "getSyncStats e s =
     (let today = utc_day (now s) in
      if total_count_query e = QThrow \<or> active_count_query e = QThrow \<or>
         completed_count_query e = QThrow \<or> failed_count_query e = QThrow
      then \<lparr>totalAccounts = 0, activeJobs = 0, completedToday = 0, failedToday = 0\<rparr>
      else
        (let accountsResult = count_of (total_count_query e)
               (filter locked_integration (profiles s));
             activeJobsResult = count_of (active_count_query e)
               (filter (\<lambda>j. platform j = ''tripadvisor'' \<and> active_status (status j))
                       (review_sync_jobs s));
             completedResult = count_of (completed_count_query e)
               (jobs_today Completed today (review_sync_jobs s));
             failedResult = count_of (failed_count_query e)
               (jobs_today Failed today (review_sync_jobs s))
         in \<lparr>totalAccounts = or_zero accountsResult, activeJobs = or_zero activeJobsResult,
             completedToday = or_zero completedResult,
             failedToday = or_zero failedResult\<rparr>))"

section \<open>Notions the claims are stated with\<close>

subsection \<open>The log of a run\<close>

text \<open>
  The pacing of a sweep is read off the log: the starts of \<^verbatim>\<open>syncAccount\<close> and the
  pauses, in the order they happen.
\<close>

definition pacing :: "event \<Rightarrow> bool" where
  "pacing ev = (case ev of EvSyncStart u \<Rightarrow> True | EvSleep ms \<Rightarrow> True | _ \<Rightarrow> False)"

definition pacing_view :: "(bool \<times> event) list \<Rightarrow> event list" where
  "pacing_view evs = filter pacing (map snd evs)"

definition pauses :: "event list \<Rightarrow> nat list" where
  "pauses evs = concat (map (\<lambda>ev. case ev of EvSleep ms \<Rightarrow> [ms] | _ \<Rightarrow> []) evs)"

definition start_of :: "SyncAccount \<Rightarrow> event" where
  "start_of a = EvSyncStart (user_id a)"

text \<open>
  What the pacing of a sweep over the given batches is claimed to be: the batches in
  order, every account of a batch started, and one pause of 30 seconds between two
  batches.
\<close>

fun paced_trace :: "SyncAccount list list \<Rightarrow> event list" where
  "paced_trace [] = []"
| "paced_trace (b # bs) =
     map start_of b @ (if bs = [] then [] else EvSleep 30000 # paced_trace bs)"

text \<open>
  \<open>extends s pv s'\<close>: the state \<open>s'\<close> comes after \<open>s\<close> with the flag unchanged, every
  new entry of the log was issued under the flag of \<open>s\<close>, and the pacing of the new
  entries is \<open>pv\<close>.
\<close>

definition extends :: "sched_state \<Rightarrow> event list \<Rightarrow> sched_state \<Rightarrow> bool" where
  "extends s pv s' \<longleftrightarrow>
     isRunning s' = isRunning s \<and>
     (\<exists>new. events s' = events s @ new \<and> (\<forall>x \<in> set new. fst x = isRunning s) \<and>
            filter pacing (map snd new) = pv)"

text \<open>The list \<^verbatim>\<open>getAccountsForSync\<close> returns.\<close>

definition fetched :: "env \<Rightarrow> sched_state \<Rightarrow> SyncAccount list" where
  "fetched e s =
     (if accounts_query e = QOk
      then map select_account (filter locked_integration (profiles s)) else [])"

subsection \<open>The job table\<close>

text \<open>
  At most one active job per account: no row of the table belongs to an account that
  has two or more \<^verbatim>\<open>tripadvisor\<close> rows with status pending or running.
\<close>

definition at_most_one_active :: "job list \<Rightarrow> bool" where
  "at_most_one_active js \<longleftrightarrow>
     (\<forall>j \<in> set js. length (filter (active_job_of (tour_operator_id j)) js) \<le> 1)"


text \<open>The row \<^verbatim>\<open>createSyncJob\<close> inserts, and the update \<^verbatim>\<open>markJobFailed\<close> applies to a row.\<close>

definition pending_row :: "env \<Rightarrow> string \<Rightarrow> bool \<Rightarrow> sched_state \<Rightarrow> job" where
  "pending_row e u fh s =
     \<lparr>job_id = next_job_id s, tour_operator_id = u, platform = ''tripadvisor'',
      status = Pending, full_history = fh, total_available = 0, imported_count = 0,
      created_at = created_at_default e (now s), started_at = Some (now s),
      completed_at = None, job_error = None\<rparr>"

definition fail_row :: "nat \<Rightarrow> string \<Rightarrow> timestamp \<Rightarrow> job \<Rightarrow> job" where
  "fail_row jid msg t j =
     (if job_id j = jid
      then j\<lparr>status := Failed, job_error := Some msg, completed_at := Some t\<rparr> else j)"

text \<open>The dedup check of \<^verbatim>\<open>syncAccount\<close> returned a job.\<close>

definition found_active :: "env \<Rightarrow> string \<Rightarrow> sched_state \<Rightarrow> bool" where
  "found_active e u s \<longleftrightarrow> fst (getRunningJob e u s) \<noteq> None"

text \<open>
  What a dispatched account is claimed to leave in the table when the store answers
  every query: a row that is pending if the worker accepted the job and failed, with
  the message of \<^verbatim>\<open>syncAccount\<close>, if it did not. \<open>dispatched_rows\<close> are these rows
  for the accounts of a batch, with consecutive identifiers.
\<close>

definition outcome_row :: "env \<Rightarrow> timestamp \<Rightarrow> nat \<Rightarrow> SyncAccount \<Rightarrow> job" where
  "outcome_row e t jid a =
     \<lparr>job_id = jid, tour_operator_id = user_id a, platform = ''tripadvisor'',
      status = (if worker_call e jid (user_id a) = WOk then Pending else Failed),
      full_history = False, total_available = 0, imported_count = 0,
      created_at = created_at_default e t, started_at = Some t,
      completed_at = (if worker_call e jid (user_id a) = WOk then None else Some t),
      job_error = (if worker_call e jid (user_id a) = WOk then None
                   else Some ''Failed to trigger worker sync'')\<rparr>"

fun dispatched_rows :: "env \<Rightarrow> timestamp \<Rightarrow> nat \<Rightarrow> SyncAccount list \<Rightarrow> job list" where
  "dispatched_rows e t n [] = []"
| "dispatched_rows e t n (a # batch) = outcome_row e t n a # dispatched_rows e t (Suc n) batch"






subsection \<open>Days\<close>

text \<open>
  A job completed on a day, as the statistics are claimed to count it (by the time of
  completion), and a job with a given status created on a day.
\<close>

definition completed_on_day :: "nat \<Rightarrow> job \<Rightarrow> bool" where
  "completed_on_day d j \<longleftrightarrow>
     platform j = ''tripadvisor'' \<and> status j = Completed \<and>
     (case completed_at j of None \<Rightarrow> False | Some t \<Rightarrow> utc_day t = d)"

definition created_on_day :: "job_status \<Rightarrow> nat \<Rightarrow> job \<Rightarrow> bool" where
  "created_on_day st d j \<longleftrightarrow>
     platform j = ''tripadvisor'' \<and> status j = st \<and> utc_day (created_at j) = d"

subsection \<open>Scenarios\<close>

text \<open>An environment in which every remote call succeeds.\<close>

definition env_ok :: env where
  "env_ok =
     \<lparr>accounts_query = QOk, dedup_query = (\<lambda>u. QOk), insert_query = (\<lambda>u. QOk),
      worker_call = (\<lambda>jid u. WOk), update_query = (\<lambda>jid. QOk),
      profile_query = (\<lambda>u. QOk), total_count_query = QOk, active_count_query = QOk,
      completed_count_query = QOk, failed_count_query = QOk,
      created_at_default = (\<lambda>t. t)\<rparr>"

text \<open>A profile with a location and a locked integration.\<close>

definition locked_profile :: "string \<Rightarrow> profile" where
  "locked_profile u =
     \<lparr>p_user_id = u, p_company_name = u,
      p_tripadvisor_location_id = Some ''g187147-d1234567'',
      p_tripadvisor_url_locked_at = Some 1761955200000,
      p_last_tripadvisor_sync_at = None, p_timezone = None\<rparr>"

text \<open>A fresh scheduler over the given tables, on 2 November 2025 at 14:00 UTC.\<close>

definition idle_scheduler :: "profile list \<Rightarrow> job list \<Rightarrow> sched_state" where
  "idle_scheduler ps js = new_scheduler ps js (length js) 1762092000000"

text \<open>Three methods that all throw.\<close>

definition throwing_ops :: ops where
  "throwing_ops =
     \<lparr>op_getAccountsForSync = (\<lambda>s. (Inl (Thrown ''fetch''), s)),
      op_syncAccount = (\<lambda>a s. (Inl (Thrown ''sync''), s)),
      op_sleep = (\<lambda>ms s. (Inl (Thrown ''sleep''), s))\<rparr>"

definition seven_profiles :: "profile list" where
  "seven_profiles =
     map locked_profile [''u1'', ''u2'', ''u3'', ''u4'', ''u5'', ''u6'', ''u7'']"

text \<open>The store answers the dedup query with an error (a cancelled statement).\<close>

definition env_dedup_down :: env where
  "env_dedup_down = env_ok\<lparr>dedup_query := (\<lambda>u. QError ''57014'')\<rparr>"


text \<open>Job rows: one created at 02:00 UTC of the scheduler's day, and a completed one.\<close>

definition pending_job_of :: "nat \<Rightarrow> string \<Rightarrow> job" where
  "pending_job_of jid u =
     \<lparr>job_id = jid, tour_operator_id = u, platform = ''tripadvisor'', status = Pending,
      full_history = False, total_available = 0, imported_count = 0,
      created_at = 1762048800000, started_at = Some 1762048800000,
      completed_at = None, job_error = None\<rparr>"

definition completed_job_of :: "nat \<Rightarrow> string \<Rightarrow> timestamp \<Rightarrow> timestamp \<Rightarrow> job" where
  "completed_job_of jid u created done =
     \<lparr>job_id = jid, tour_operator_id = u, platform = ''tripadvisor'', status = Completed,
      full_history = False, total_available = 12, imported_count = 12,
      created_at = created, started_at = Some created,
      completed_at = Some done, job_error = None\<rparr>"

text \<open>One account that already has a pending job.\<close>

definition busy_store :: sched_state where
  "busy_store = idle_scheduler [locked_profile ''u1''] [pending_job_of 0 ''u1'']"

text \<open>Three accounts, each with a job completed the day before.\<close>

definition batch_abc :: "SyncAccount list" where
  "batch_abc = map (\<lambda>u. select_account (locked_profile u)) [''A'', ''B'', ''C'']"

definition store_abc :: sched_state where
  "store_abc =
     idle_scheduler (map locked_profile [''A'', ''B'', ''C''])
       [completed_job_of 0 ''A'' 1761962400000 1761962460000,
        completed_job_of 1 ''B'' 1761962400000 1761962460000,
        completed_job_of 2 ''C'' 1761962400000 1761962460000]"

text \<open>A profile with a location whose integration is not locked, alone in the table.\<close>

definition unlocked_profile :: "string \<Rightarrow> profile" where
  "unlocked_profile u = (locked_profile u)\<lparr>p_tripadvisor_url_locked_at := None\<rparr>"

definition unlocked_store :: sched_state where
  "unlocked_store = idle_scheduler [unlocked_profile ''u1''] []"

text \<open>
  A job created on 1 November 2025 at 22:00 UTC and completed on 2 November at 02:00
  UTC, read at 14:00 UTC of 2 November.
\<close>

definition overnight_store :: sched_state where
  "overnight_store =
     idle_scheduler [] [completed_job_of 0 ''u1'' 1762034400000 1762048800000]"

text \<open>
  A job of another platform, created on 28 October 2025 in the last second of the
  day (23:59:59.5 UTC).
\<close>

definition stale_job :: job where
  "stale_job =
     \<lparr>job_id = 3, tour_operator_id = ''A'', platform = ''google'', status = Completed,
      full_history = False, total_available = 4, imported_count = 4,
      created_at = 1761695999500, started_at = Some 1761695999500,
      completed_at = Some 1761696060000, job_error = None\<rparr>"

text \<open>
  Three locked accounts, two jobs created and completed on the scheduler's day, one
  pending job, and the old job of the other platform.
\<close>

definition report_store :: sched_state where
  "report_store =
     idle_scheduler (map locked_profile [''A'', ''B'', ''C''])
       [completed_job_of 0 ''A'' 1762048800000 1762048860000,
        completed_job_of 1 ''B'' 1762048800000 1762048890000,
        pending_job_of 2 ''C'',
        stale_job]"

section \<open>Lemmas\<close>

subsection \<open>The partition of \<^verbatim>\<open>chunkArray\<close>\<close>

declare chunks_ref.simps [simp del]

lemma chunks_ref_Nil [simp]: "chunks_ref n [] = []"
  by (simp add: chunks_ref.simps)

lemma chunks_ref_step:
  "0 < n \<Longrightarrow> xs \<noteq> [] \<Longrightarrow> chunks_ref n xs = take n xs # chunks_ref n (drop n xs)"
  by (subst chunks_ref.simps) simp

lemma slice_drop: "slice array i (i + n) = take n (drop i array)"
  by (simp add: slice_def take_drop add.commute)

lemma chunkLoop_ref:
  "0 < sz \<Longrightarrow>
   chunkLoop array sz i chunks = Some (chunks @ chunks_ref sz (drop i array))"
proof (induction "length array - i" arbitrary: i chunks rule: less_induct)
  case less
  show ?case
  proof (cases "i < length array")
    case False
    then show ?thesis
      by (subst chunkLoop.simps) simp
  next
    case True
    then have "length array - (i + sz) < length array - i"
      using less.prems by arith
    from less.hyps [OF this less.prems]
    have "chunkLoop array sz (i + sz) (chunks @ [slice array i (i + sz)]) =
          Some ((chunks @ [slice array i (i + sz)]) @
                chunks_ref sz (drop (i + sz) array))" .
    moreover have "drop i array \<noteq> []"
      using True by simp
    ultimately show ?thesis
      using True less.prems
      by (subst chunkLoop.simps)
         (simp add: chunks_ref_step slice_drop add.commute)
  qed
qed

lemma chunkArray_ref:
  "0 < sz \<Longrightarrow> chunkArray array sz = Some (chunks_ref sz array)"
  by (simp add: chunkArray_def chunkLoop_ref)

lemma concat_chunks_ref: "0 < n \<Longrightarrow> concat (chunks_ref n xs) = xs"
proof (induction n xs rule: chunks_ref.induct)
  case (1 n xs)
  then show ?case
    by (cases "xs = []") (simp_all add: chunks_ref_step)
qed

lemma length_chunks_ref: "0 < n \<Longrightarrow> length (chunks_ref n xs) = (length xs + n - 1) div n"
proof (induction n xs rule: chunks_ref.induct)
  case (1 n xs)
  show ?case
  proof (cases "xs = []")
    case True
    then show ?thesis using "1.prems" by simp
  next
    case False
    then have len: "0 < length xs" by simp
    have ih: "length (chunks_ref n (drop n xs)) = (length (drop n xs) + n - 1) div n"
      using "1.IH" "1.prems" False by simp
    show ?thesis
    proof (cases "n \<le> length xs")
      case True
      define k where "k = length xs - 1"
      have a: "length xs + n - 1 = k + n"
        unfolding k_def using len by arith
      have b: "(k + n) div n = Suc (k div n)"
        using "1.prems" div_add_self2 [of n k] by simp
      have c: "length (drop n xs) + n - 1 = k"
        unfolding k_def using True len by simp
      have "length (chunks_ref n xs) = Suc (length (chunks_ref n (drop n xs)))"
        using \<open>xs \<noteq> []\<close> "1.prems" by (simp add: chunks_ref_step)
      also have "\<dots> = Suc ((length (drop n xs) + n - 1) div n)"
        by (simp only: ih)
      also have "\<dots> = Suc (k div n)"
        by (simp only: c)
      also have "\<dots> = (k + n) div n"
        by (simp only: b)
      also have "\<dots> = (length xs + n - 1) div n"
        by (simp only: a)
      finally show ?thesis .
    next
      case False
      define k where "k = length xs - 1"
      have a: "length xs + n - 1 = k + n"
        unfolding k_def using len by arith
      have b: "(k + n) div n = Suc (k div n)"
        using "1.prems" div_add_self2 [of n k] by simp
      have c: "k div n = 0"
        unfolding k_def using False by simp
      have "length (chunks_ref n xs) = Suc 0"
        using \<open>xs \<noteq> []\<close> False "1.prems" by (simp add: chunks_ref_step)
      also have "\<dots> = (k + n) div n"
        by (simp only: b c)
      also have "\<dots> = (length xs + n - 1) div n"
        by (simp only: a)
      finally show ?thesis .
    qed
  qed
qed

lemma chunks_ref_sizes:
  "0 < n \<Longrightarrow> i < length (chunks_ref n xs) \<Longrightarrow>
   chunks_ref n xs ! i = take n (drop (i * n) xs)"
proof (induction n xs arbitrary: i rule: chunks_ref.induct)
  case (1 n xs)
  from "1.prems" have ne: "xs \<noteq> []" by auto
  show ?case
  proof (cases i)
    case 0
    then show ?thesis using ne "1.prems" by (simp add: chunks_ref_step)
  next
    case (Suc k)
    then have "k < length (chunks_ref n (drop n xs))"
      using "1.prems" ne by (simp add: chunks_ref_step)
    then have "chunks_ref n (drop n xs) ! k = take n (drop (k * n) (drop n xs))"
      using "1.IH" "1.prems" ne by simp
    then show ?thesis
      using Suc ne "1.prems" by (simp add: chunks_ref_step add.commute)
  qed
qed

lemma chunks_ref_le:
  "0 < n \<Longrightarrow> b \<in> set (chunks_ref n xs) \<Longrightarrow> length b \<le> n \<and> b \<noteq> []"
proof (induction n xs rule: chunks_ref.induct)
  case (1 n xs)
  from "1.prems" have ne: "xs \<noteq> []" by auto
  with "1.prems" have "b = take n xs \<or> b \<in> set (chunks_ref n (drop n xs))"
    by (simp add: chunks_ref_step)
  then show ?case
    using "1.IH" "1.prems" ne by auto
qed

lemma chunks_ref_full:
  assumes "0 < n" and "i + 1 < length (chunks_ref n xs)"
  shows "length (chunks_ref n xs ! i) = n"
proof -
  have "i + 2 \<le> (length xs + n - 1) div n"
    using assms by (simp add: length_chunks_ref)
  then have "(i + 2) * n \<le> length xs + n - 1"
    using assms(1) by (simp add: less_eq_div_iff_mult_less_eq)
  then have "(i + 1) * n \<le> length xs"
    using assms(1) by (simp add: algebra_simps)
  moreover have "chunks_ref n xs ! i = take n (drop (i * n) xs)"
    using assms by (simp add: chunks_ref_sizes)
  ultimately show ?thesis
    by (simp add: algebra_simps)
qed

subsection \<open>The log and the flag\<close>

lemma extends_refl: "extends s [] s"
  by (simp add: extends_def)

lemma extends_trans:
  assumes "extends s pv1 s1" and "extends s1 pv2 s2"
  shows "extends s (pv1 @ pv2) s2"
proof -
  from assms(1) obtain n1 where 1: "isRunning s1 = isRunning s" "events s1 = events s @ n1"
    "\<forall>x \<in> set n1. fst x = isRunning s" "filter pacing (map snd n1) = pv1"
    by (auto simp: extends_def)
  from assms(2) obtain n2 where 2: "isRunning s2 = isRunning s1" "events s2 = events s1 @ n2"
    "\<forall>x \<in> set n2. fst x = isRunning s1" "filter pacing (map snd n2) = pv2"
    by (auto simp: extends_def)
  have "events s2 = events s @ (n1 @ n2)" using 1 2 by simp
  moreover have "\<forall>x \<in> set (n1 @ n2). fst x = isRunning s" using 1 2 by auto
  moreover have "filter pacing (map snd (n1 @ n2)) = pv1 @ pv2" using 1 2 by simp
  ultimately show ?thesis
    unfolding extends_def using 1(1) 2(1) by metis
qed

lemma extends_emit:
  "extends s (if pacing ev then [ev] else []) (emit ev s)"
  by (simp add: extends_def emit_def)

lemma extends_getRunningJob: "extends s [] (snd (getRunningJob e u s))"
  using extends_emit [of s "EvDedupQuery u"]
  by (auto simp: getRunningJob_def Let_def pacing_def split: query_outcome.splits prod.splits option.splits)

lemma extends_createSyncJob: "extends s [] (snd (createSyncJob e u fh s))"
  using extends_emit [of s "EvInsert u"]
  by (auto simp: createSyncJob_def Let_def pacing_def extends_def split: query_outcome.splits)

lemma extends_triggerWorkerSync: "extends s [] (snd (triggerWorkerSync e jid a s))"
  using extends_emit [of s "EvWorkerCall jid (user_id a)"]
  by (auto simp: triggerWorkerSync_def Let_def pacing_def split: worker_outcome.splits)

lemma extends_markJobFailed: "extends s [] (markJobFailed e jid msg s)"
  using extends_emit [of s "EvUpdate jid"]
  by (auto simp: markJobFailed_def Let_def pacing_def extends_def split: query_outcome.splits)

lemma extends_sleep: "extends s [EvSleep ms] (snd (sleep ms s))"
  by (simp add: sleep_def extends_def emit_def pacing_def)

lemma syncAccount_fst: "fst (syncAccount e a s) = Inr ()"
  by (simp add: syncAccount_def Let_def split: prod.splits option.splits)

lemma extends_syncAccount: "extends s [EvSyncStart (user_id a)] (snd (syncAccount e a s))"
proof -
  let ?u = "user_id a"
  let ?s0 = "emit (EvSyncStart ?u) s"
  have 0: "extends s [EvSyncStart ?u] ?s0"
    using extends_emit [of s "EvSyncStart ?u"] by (simp add: pacing_def)
  obtain ex s1 where g: "getRunningJob e ?u ?s0 = (ex, s1)" by fastforce
  have 1: "extends s [EvSyncStart ?u] s1"
    using extends_trans [OF 0 extends_getRunningJob [of ?s0 e ?u]] g by simp
  show ?thesis
  proof (cases ex)
    case (Some j)
    then show ?thesis using g 1 by (simp add: syncAccount_def Let_def)
  next
    case None
    obtain cr s2 where c: "createSyncJob e ?u False s1 = (cr, s2)" by fastforce
    have 2: "extends s [EvSyncStart ?u] s2"
      using extends_trans [OF 1 extends_createSyncJob [of s1 e ?u False]] c by simp
    show ?thesis
    proof (cases cr)
      case None
      then show ?thesis using g c 2 \<open>ex = None\<close> by (simp add: syncAccount_def Let_def)
    next
      case (Some j)
      obtain ok s3 where t: "triggerWorkerSync e (job_id j) a s2 = (ok, s3)" by fastforce
      have 3: "extends s [EvSyncStart ?u] s3"
        using extends_trans [OF 2 extends_triggerWorkerSync [of s2 e "job_id j" a]] t by simp
      have 4: "extends s [EvSyncStart ?u] (markJobFailed e (job_id j) msg s3)" for msg
        using extends_trans [OF 3 extends_markJobFailed [of s3 e "job_id j" msg]] by simp
      show ?thesis
        using g c t 3 4 Some \<open>ex = None\<close> by (simp add: syncAccount_def Let_def)
    qed
  qed
qed

lemma now_emit [simp]: "now (emit ev s) = now s"
  by (simp add: emit_def)

lemma now_getRunningJob [simp]: "now (snd (getRunningJob e u s)) = now s"
  by (simp add: getRunningJob_def Let_def split: query_outcome.splits prod.splits option.splits)

lemma now_createSyncJob [simp]: "now (snd (createSyncJob e u fh s)) = now s"
  by (simp add: createSyncJob_def Let_def split: query_outcome.splits)

lemma now_triggerWorkerSync [simp]: "now (snd (triggerWorkerSync e jid a s)) = now s"
  by (simp add: triggerWorkerSync_def Let_def split: worker_outcome.splits)

lemma now_markJobFailed [simp]: "now (markJobFailed e jid msg s) = now s"
  by (simp add: markJobFailed_def Let_def split: query_outcome.splits)

lemma now_syncAccount: "now (snd (syncAccount e a s)) = now s"
  by (simp add: syncAccount_def Let_def split_def split: option.splits)

lemma extends_allSettled:
  "extends s (map start_of batch) (allSettled (scheduler_ops e) batch s)"
proof (induction batch arbitrary: s)
  case Nil
  show ?case by (simp add: extends_refl)
next
  case (Cons a batch)
  have "extends s ([start_of a] @ map start_of batch)
          (allSettled (scheduler_ops e) batch (snd (syncAccount e a s)))"
    using extends_syncAccount [of s a e] Cons.IH [of "snd (syncAccount e a s)"]
    unfolding start_of_def by (rule extends_trans)
  then show ?case by (simp add: scheduler_ops_def)
qed

lemma now_allSettled: "now (allSettled (scheduler_ops e) batch s) = now s"
  by (induction batch arbitrary: s) (simp_all add: scheduler_ops_def now_syncAccount)

text \<open>
  The loop over the batches from index \<open>i\<close>: it does not throw, its pacing is that of
  the remaining batches, and the clock has advanced by one pause per remaining batch
  but the last.
\<close>

lemma batchLoop_scheduler:
  "i \<le> length batches \<Longrightarrow>
   fst (batchLoop (scheduler_ops e) batches i s) = Inr () \<and>
   extends s (paced_trace (drop i batches)) (snd (batchLoop (scheduler_ops e) batches i s)) \<and>
   now (snd (batchLoop (scheduler_ops e) batches i s)) =
     now s + 30000 * (length batches - 1 - i)"
proof (induction "length batches - i" arbitrary: i s rule: less_induct)
  case less
  let ?os = "scheduler_ops e"
  show ?case
  proof (cases "i < length batches")
    case False
    then have "i = length batches" using less.prems by simp
    then show ?thesis
      by (subst (1 2 3) batchLoop.simps) (simp add: extends_refl)
  next
    case True
    let ?s1 = "allSettled ?os (batches ! i) s"
    have d: "drop i batches = batches ! i # drop (Suc i) batches"
      using True by (simp add: Cons_nth_drop_Suc)
    have e1: "extends s (map start_of (batches ! i)) ?s1"
      by (rule extends_allSettled)
    have ih: "fst (batchLoop ?os batches (Suc i) t) = Inr () \<and>
        extends t (paced_trace (drop (Suc i) batches)) (snd (batchLoop ?os batches (Suc i) t)) \<and>
        now (snd (batchLoop ?os batches (Suc i) t)) = now t + 30000 * (length batches - 1 - Suc i)"
      for t
      using less.hyps [of "Suc i" t] True by simp
    show ?thesis
    proof (cases "i < length batches - 1")
      case last: False
      then have dn: "drop (Suc i) batches = []" using True by simp
      have eq: "batchLoop ?os batches i s = batchLoop ?os batches (Suc i) ?s1"
        using True last by (subst batchLoop.simps) simp
      have "extends s (map start_of (batches ! i) @ paced_trace (drop (Suc i) batches))
              (snd (batchLoop ?os batches (Suc i) ?s1))"
        using e1 ih [of ?s1] by (blast intro: extends_trans)
      then show ?thesis
        using ih [of ?s1] last True by (simp add: eq d dn now_allSettled)
    next
      case more: True
      then have dn: "drop (Suc i) batches \<noteq> []" by simp
      let ?s2 = "snd (sleep 30000 ?s1)"
      have eq: "batchLoop ?os batches i s = batchLoop ?os batches (Suc i) ?s2"
        using True more
        by (subst batchLoop.simps) (simp add: scheduler_ops_def sleep_def Let_def)
      have e2: "extends s (map start_of (batches ! i) @ [EvSleep 30000]) ?s2"
        using e1 extends_sleep [of ?s1 30000] by (rule extends_trans)
      have "extends s ((map start_of (batches ! i) @ [EvSleep 30000]) @
                paced_trace (drop (Suc i) batches))
              (snd (batchLoop ?os batches (Suc i) ?s2))"
        using e2 ih [of ?s2] by (blast intro: extends_trans)
      then have tr: "extends s (paced_trace (drop i batches))
              (snd (batchLoop ?os batches i s))"
        using dn by (simp add: eq d)
      have "now ?s2 = now s + 30000"
        by (simp add: sleep_def emit_def now_allSettled)
      moreover have "length batches - 1 - i = Suc (length batches - 1 - Suc i)"
        using more by arith
      ultimately have "now (snd (batchLoop ?os batches i s)) =
          now s + 30000 * (length batches - 1 - i)"
        using ih [of ?s2] by (simp add: eq)
      then show ?thesis
        using ih [of ?s2] tr by (simp add: eq)
    qed
  qed
qed

lemma pauses_simps [simp]:
  "pauses [] = []"
  "pauses (ev # evs) = (case ev of EvSleep ms \<Rightarrow> [ms] | _ \<Rightarrow> []) @ pauses evs"
  "pauses (xs @ ys) = pauses xs @ pauses ys"
  by (simp_all add: pauses_def)

lemma pauses_filter_pacing: "pauses (filter pacing evs) = pauses evs"
  by (induction evs) (auto simp: pacing_def split: event.splits)

lemma pauses_starts [simp]: "pauses (map start_of b) = []"
  by (induction b) (simp_all add: start_of_def)

lemma pauses_paced_trace: "pauses (paced_trace bs) = replicate (length bs - 1) 30000"
proof (induction bs)
  case Nil
  show ?case by simp
next
  case (Cons b bs)
  then show ?case by (cases bs) simp_all
qed

lemma sweepBody_Some: "\<exists>r. sweepBody os s = Some r"
  by (simp add: sweepBody_def chunkArray_ref split: prod.splits sum.splits)

lemma runDailySync_with_clears:
  "\<not> isRunning s \<Longrightarrow> \<exists>s'. runDailySync_with os s = Some s' \<and> \<not> isRunning s'"
  using sweepBody_Some [of os "s\<lparr>isRunning := True\<rparr>"]
  by (auto simp: runDailySync_with_def split: prod.splits sum.splits)

lemma runDailySync_with_busy: "isRunning s \<Longrightarrow> runDailySync_with os s = Some s"
  by (simp add: runDailySync_with_def)

lemma getAccountsForSync_eq:
  "getAccountsForSync e s = (Inr (fetched e s), emit EvAccountsQuery s)"
  by (simp add: getAccountsForSync_def fetched_def emit_def Let_def split: query_outcome.splits)

lemma sweepBody_scheduler:
  "\<exists>s2. sweepBody (scheduler_ops e) s = Some (Inr (), s2) \<and>
      extends s (paced_trace (chunks_ref 5 (fetched e s))) s2 \<and>
      now s2 = now s + 30000 * (length (chunks_ref 5 (fetched e s)) - 1)"
proof -
  let ?s1 = "emit EvAccountsQuery s"
  let ?bs = "chunks_ref 5 (fetched e s)"
  have e1: "extends s [] ?s1"
    using extends_emit [of s EvAccountsQuery] by (simp add: pacing_def)
  show ?thesis
  proof (cases "fetched e s = []")
    case True
    then show ?thesis
      using e1 by (simp add: sweepBody_def scheduler_ops_def getAccountsForSync_eq)
  next
    case False
    have b: "sweepBody (scheduler_ops e) s = Some (batchLoop (scheduler_ops e) ?bs 0 ?s1)"
      using False
      by (simp add: sweepBody_def scheduler_ops_def getAccountsForSync_eq chunkArray_ref)
    have l: "fst (batchLoop (scheduler_ops e) ?bs 0 ?s1) = Inr () \<and>
      extends ?s1 (paced_trace (drop 0 ?bs)) (snd (batchLoop (scheduler_ops e) ?bs 0 ?s1)) \<and>
      now (snd (batchLoop (scheduler_ops e) ?bs 0 ?s1)) = now ?s1 + 30000 * (length ?bs - 1 - 0)"
      by (rule batchLoop_scheduler) simp
    then have "extends ?s1 (paced_trace ?bs) (snd (batchLoop (scheduler_ops e) ?bs 0 ?s1))"
      by simp
    with e1 have "extends s ([] @ paced_trace ?bs)
        (snd (batchLoop (scheduler_ops e) ?bs 0 ?s1))"
      by (rule extends_trans)
    then show ?thesis
      using b l by (cases "batchLoop (scheduler_ops e) ?bs 0 ?s1") simp
  qed
qed

lemma runDailySync_scheduler:
  assumes "\<not> isRunning s"
  shows "\<exists>s' new. runDailySync e s = Some s' \<and> \<not> isRunning s' \<and>
      events s' = events s @ new \<and> (\<forall>x \<in> set new. fst x) \<and>
      pacing_view new = paced_trace (chunks_ref 5 (fetched e s)) \<and>
      now s' = now s + 30000 * (length (chunks_ref 5 (fetched e s)) - 1)"
proof -
  let ?s1 = "s\<lparr>isRunning := True\<rparr>"
  have f: "fetched e ?s1 = fetched e s" by (simp add: fetched_def)
  obtain s2 where s2: "sweepBody (scheduler_ops e) ?s1 = Some (Inr (), s2)"
      "extends ?s1 (paced_trace (chunks_ref 5 (fetched e s))) s2"
      "now s2 = now ?s1 + 30000 * (length (chunks_ref 5 (fetched e s)) - 1)"
    using sweepBody_scheduler [of e ?s1] unfolding f by blast
  from s2(2) obtain new where new: "events s2 = events s @ new" "\<forall>x \<in> set new. fst x"
      "filter pacing (map snd new) = paced_trace (chunks_ref 5 (fetched e s))"
    by (auto simp: extends_def)
  have "runDailySync e s = Some (s2\<lparr>isRunning := False\<rparr>)"
    using assms s2(1) by (simp add: runDailySync_def runDailySync_with_def)
  then show ?thesis
    using new s2(3) by (simp add: pacing_view_def)
qed

subsection \<open>The job table under a dispatch\<close>

lemma single_take1:
  "single (take (Suc 0) xs) =
     (case xs of [] \<Rightarrow> (None, Some ''PGRST116'') | x # ys \<Rightarrow> (Some x, None))"
  by (cases xs) simp_all

lemma length_order_desc [simp]: "length (order_desc f xs) = length xs"
  by (simp add: order_desc_def)

lemma order_desc_Nil [simp]: "order_desc f xs = [] \<longleftrightarrow> xs = []"
  using length_order_desc [of f xs] by (cases xs) (auto simp del: length_order_desc)

lemma emit_fields [simp]:
  "review_sync_jobs (emit ev s) = review_sync_jobs s"
  "next_job_id (emit ev s) = next_job_id s"
  "profiles (emit ev s) = profiles s"
  "isRunning (emit ev s) = isRunning s"
  "cronJob (emit ev s) = cronJob s"
  by (simp_all add: emit_def)

lemma set_order_desc [simp]: "set (order_desc f xs) = set xs"
  by (simp add: order_desc_def)

lemma getRunningJob_snd [simp]: "snd (getRunningJob e u s) = emit (EvDedupQuery u) s"
  by (simp add: getRunningJob_def Let_def split: query_outcome.splits prod.splits option.splits)

lemma getRunningJob_failed:
  "dedup_query e u \<noteq> QOk \<Longrightarrow> fst (getRunningJob e u s) = None"
  by (cases "dedup_query e u") (simp_all add: getRunningJob_def answer_def Let_def)

lemma order_desc_empty [simp]: "order_desc f [] = []"
  by (simp add: order_desc_def)

lemma getRunningJob_ok_None:
  assumes "dedup_query e u = QOk" and "filter (active_job_of u) (review_sync_jobs s) = []"
  shows "fst (getRunningJob e u s) = None"
  using assms by (simp add: getRunningJob_def answer_def Let_def)

lemma getRunningJob_ok_Some:
  assumes "dedup_query e u = QOk" and "filter (active_job_of u) (review_sync_jobs s) \<noteq> []"
  shows "fst (getRunningJob e u s) =
     Some (hd (order_desc created_at (filter (active_job_of u) (review_sync_jobs s))))"
proof -
  obtain j js where
    "order_desc created_at (filter (active_job_of u) (review_sync_jobs s)) = j # js"
    using assms(2) by (cases "order_desc created_at (filter (active_job_of u) (review_sync_jobs s))") auto
  then show ?thesis
    using assms(1) by (simp add: getRunningJob_def answer_def Let_def single_take1)
qed

lemma getRunningJob_None_iff:
  assumes "dedup_query e u = QOk"
  shows "fst (getRunningJob e u s) = None \<longleftrightarrow>
     (\<forall>j \<in> set (review_sync_jobs s). \<not> active_job_of u j)"
proof (cases "filter (active_job_of u) (review_sync_jobs s) = []")
  case True
  then show ?thesis
    using getRunningJob_ok_None [OF assms True] by (simp add: filter_empty_conv)
next
  case False
  then show ?thesis
    using getRunningJob_ok_Some [OF assms False] by (simp add: filter_empty_conv)
qed

lemma getRunningJob_emit [simp]:
  "fst (getRunningJob e u (emit ev s)) = fst (getRunningJob e u s)"
proof (cases "dedup_query e u = QOk")
  case True
  show ?thesis
  proof (cases "filter (active_job_of u) (review_sync_jobs s) = []")
    case True
    then show ?thesis
      using \<open>dedup_query e u = QOk\<close> by (simp add: getRunningJob_ok_None)
  next
    case False
    then show ?thesis
      using \<open>dedup_query e u = QOk\<close> by (simp add: getRunningJob_ok_Some)
  qed
next
  case False
  then show ?thesis by (simp add: getRunningJob_failed)
qed

lemma pending_row_id [simp]: "job_id (pending_row e u fh s) = next_job_id s"
  by (simp add: pending_row_def)

lemma createSyncJob_ok:
  "insert_query e u = QOk \<Longrightarrow>
   createSyncJob e u fh s =
     (Some (pending_row e u fh s),
      (emit (EvInsert u) s)\<lparr>review_sync_jobs := review_sync_jobs s @ [pending_row e u fh s],
                            next_job_id := Suc (next_job_id s)\<rparr>)"
  by (simp add: createSyncJob_def pending_row_def emit_def Let_def)

lemma createSyncJob_failed:
  "insert_query e u \<noteq> QOk \<Longrightarrow> createSyncJob e u fh s = (None, emit (EvInsert u) s)"
  by (cases "insert_query e u") (simp_all add: createSyncJob_def Let_def)

lemma triggerWorkerSync_eq:
  "triggerWorkerSync e jid a s =
     (worker_call e jid (user_id a) = WOk, emit (EvWorkerCall jid (user_id a)) s)"
  by (simp add: triggerWorkerSync_def Let_def split: worker_outcome.splits)

lemma markJobFailed_jobs:
  "review_sync_jobs (markJobFailed e jid msg s) =
     (if update_query e jid = QOk then map (fail_row jid msg (now s)) (review_sync_jobs s)
      else review_sync_jobs s)"
  by (auto simp: markJobFailed_def fail_row_def emit_def Let_def split: query_outcome.splits)

lemma markJobFailed_next [simp]: "next_job_id (markJobFailed e jid msg s) = next_job_id s"
  by (simp add: markJobFailed_def emit_def Let_def split: query_outcome.splits)

text \<open>The job table after \<^verbatim>\<open>syncAccount\<close>, by the outcome of each remote call.\<close>

lemma syncAccount_jobs:
  "review_sync_jobs (snd (syncAccount e a s)) =
     (if found_active e (user_id a) s \<or> insert_query e (user_id a) \<noteq> QOk
      then review_sync_jobs s
      else if worker_call e (next_job_id s) (user_id a) = WOk \<or>
              update_query e (next_job_id s) \<noteq> QOk
      then review_sync_jobs s @ [pending_row e (user_id a) False s]
      else map (fail_row (next_job_id s) ''Failed to trigger worker sync'' (now s))
             (review_sync_jobs s @ [pending_row e (user_id a) False s]))"
proof (cases "fst (getRunningJob e (user_id a) s)")
  case (Some j)
  then show ?thesis
    by (simp add: syncAccount_def found_active_def Let_def split_def)
next
  case None
  show ?thesis
  proof (cases "insert_query e (user_id a) = QOk")
    case False
    then show ?thesis
      using None
      by (simp add: syncAccount_def found_active_def Let_def split_def createSyncJob_failed)
  next
    case True
    have j: "job_id (pending_row e (user_id a) False (emit ev1 (emit ev2 s))) = next_job_id s"
      for ev1 ev2
      by (simp add: pending_row_def)
    have r: "pending_row e (user_id a) False (emit ev1 (emit ev2 s)) =
        pending_row e (user_id a) False s" for ev1 ev2
      by (simp add: pending_row_def)
    show ?thesis
      using None True
      by (simp add: syncAccount_def found_active_def Let_def split_def
          createSyncJob_ok [OF True] triggerWorkerSync_eq markJobFailed_jobs j r)
  qed
qed

lemma syncAccount_next:
  "next_job_id (snd (syncAccount e a s)) =
     (if found_active e (user_id a) s \<or> insert_query e (user_id a) \<noteq> QOk
      then next_job_id s else Suc (next_job_id s))"
proof (cases "fst (getRunningJob e (user_id a) s)")
  case (Some j)
  then show ?thesis
    by (simp add: syncAccount_def found_active_def Let_def split_def)
next
  case None
  show ?thesis
  proof (cases "insert_query e (user_id a) = QOk")
    case False
    then show ?thesis
      using None
      by (simp add: syncAccount_def found_active_def Let_def split_def createSyncJob_failed)
  next
    case True
    show ?thesis
      using None True
      by (simp add: syncAccount_def found_active_def Let_def split_def
          createSyncJob_ok [OF True] triggerWorkerSync_eq)
  qed
qed

lemma active_fail_row [simp]: "active_job_of u (fail_row jid msg t j) \<Longrightarrow> active_job_of u j"
  by (auto simp: fail_row_def active_job_of_def active_status_def split: if_splits)

lemma count_fail_rows:
  "length (filter (active_job_of u) (map (fail_row jid msg t) js)) \<le>
   length (filter (active_job_of u) js)"
proof (induction js)
  case Nil
  show ?case by simp
next
  case (Cons j js)
  then show ?case
    using active_fail_row [of u jid msg t j] by auto
qed

lemma at_most_one_active_iff:
  "at_most_one_active js \<longleftrightarrow> (\<forall>u. length (filter (active_job_of u) js) \<le> 1)"
proof
  assume inv: "at_most_one_active js"
  show "\<forall>u. length (filter (active_job_of u) js) \<le> 1"
  proof
    fix u
    show "length (filter (active_job_of u) js) \<le> 1"
    proof (cases "filter (active_job_of u) js")
      case Nil
      then show ?thesis by simp
    next
      case (Cons j rest)
      then have "j \<in> set (filter (active_job_of u) js)" by simp
      then have "j \<in> set js" and "tour_operator_id j = u"
        by (simp_all add: active_job_of_def)
      then show ?thesis
        using inv by (auto simp: at_most_one_active_def)
    qed
  qed
next
  assume "\<forall>u. length (filter (active_job_of u) js) \<le> 1"
  then show "at_most_one_active js"
    by (simp add: at_most_one_active_def)
qed

lemma found_active_iff:
  "dedup_query e u = QOk \<Longrightarrow>
   found_active e u s \<longleftrightarrow> (\<exists>j \<in> set (review_sync_jobs s). active_job_of u j)"
  by (simp add: found_active_def getRunningJob_None_iff)

lemma found_active_failed: "dedup_query e u \<noteq> QOk \<Longrightarrow> \<not> found_active e u s"
  by (simp add: found_active_def getRunningJob_failed)

lemma events_emit: "events (emit ev s) = events s @ [(isRunning s, ev)]"
  by (simp add: emit_def)

lemma syncAccount_events_found:
  "found_active e (user_id a) s \<Longrightarrow>
   events (snd (syncAccount e a s)) =
     events s @ [(isRunning s, EvSyncStart (user_id a)), (isRunning s, EvDedupQuery (user_id a))]"
  by (auto simp: syncAccount_def found_active_def Let_def split_def events_emit)

lemma syncAccount_events_not_found:
  assumes "\<not> found_active e (user_id a) s"
  shows "\<exists>rest. events (snd (syncAccount e a s)) =
     events s @ [(isRunning s, EvSyncStart (user_id a)), (isRunning s, EvDedupQuery (user_id a)),
                 (isRunning s, EvInsert (user_id a))] @ rest"
proof (cases "insert_query e (user_id a) = QOk")
  case False
  then show ?thesis
    using assms
    by (simp add: syncAccount_def found_active_def Let_def split_def createSyncJob_failed
        events_emit)
next
  case True
  show ?thesis
    using assms
    by (simp add: syncAccount_def found_active_def Let_def split_def createSyncJob_ok [OF True]
        triggerWorkerSync_eq markJobFailed_def events_emit split: query_outcome.splits)
qed

lemma active_pending_row [simp]: "active_job_of u (pending_row e v fh s) \<longleftrightarrow> u = v"
  by (auto simp: pending_row_def active_job_of_def active_status_def)

lemma count_append_row:
  "length (filter (active_job_of u) (js @ [pending_row e v fh s])) =
   length (filter (active_job_of u) js) + (if u = v then 1 else 0)"
  by simp







lemma dispatched_rows_length [simp]: "length (dispatched_rows e t n batch) = length batch"
  by (induction batch arbitrary: n) simp_all

lemma dispatched_rows_nth:
  "k < length batch \<Longrightarrow>
   dispatched_rows e t n batch ! k = outcome_row e t (n + k) (batch ! k)"
proof (induction batch arbitrary: n k)
  case Nil
  then show ?case by simp
next
  case (Cons a batch)
  then show ?case by (cases k) simp_all
qed

subsection \<open>A batch that runs interleaved\<close>










lemma fail_row_fields [simp]:
  "job_id (fail_row jid msg t x) = job_id x"
  "tour_operator_id (fail_row jid msg t x) = tour_operator_id x"
  by (simp_all add: fail_row_def)












subsection \<open>Manual trigger and statistics\<close>

lemma triggerManualSync_no_location:
  assumes "u \<noteq> []" and "profile_query e u \<noteq> QThrow"
    and "\<forall>p \<in> set (profiles s). p_user_id p = u \<longrightarrow> p_tripadvisor_location_id p = None"
  shows "triggerManualSync e (Some u) s = Some (Inr s)"
proof -
  have "filter (\<lambda>p. p_user_id p = u \<and> p_tripadvisor_location_id p \<noteq> None) (profiles s) = []"
    using assms(3) by (auto simp: filter_empty_conv)
  then show ?thesis
    using assms(1,2)
    by (cases "profile_query e u") (simp_all add: triggerManualSync_def answer_def)
qed

text \<open>
  The two bounds of the statistics select the timestamps of the day that are not in
  its last second.
\<close>

lemma day_window:
  "day_start d \<le> t \<and> t < day_2359 d \<longleftrightarrow> utc_day t = d \<and> t mod 86400000 < 86399000"
proof
  assume w: "day_start d \<le> t \<and> t < day_2359 d"
  then have "d * 86400000 \<le> t" and "t < (d + 1) * 86400000"
    by (simp_all add: day_start_def day_2359_def)
  then have q: "t div 86400000 = d"
    by (simp add: div_nat_eqI)
  have "t = (t div 86400000) * 86400000 + t mod 86400000"
    by simp
  then have "t mod 86400000 < 86399000"
    using w unfolding q day_start_def day_2359_def by linarith
  then show "utc_day t = d \<and> t mod 86400000 < 86399000"
    using q by (simp add: utc_day_def)
next
  assume a: "utc_day t = d \<and> t mod 86400000 < 86399000"
  then have d: "d = t div 86400000"
    by (simp add: utc_day_def)
  have "t = (t div 86400000) * 86400000 + t mod 86400000"
    by simp
  then show "day_start d \<le> t \<and> t < day_2359 d"
    using a unfolding d day_start_def day_2359_def by linarith
qed

lemma jobs_today_window:
  "jobs_today st d js =
     filter (\<lambda>j. created_on_day st d j \<and> created_at j mod 86400000 < 86399000) js"
  unfolding jobs_today_def created_on_day_def
  using day_window by (intro filter_cong refl) auto

text \<open>
  When no job of the day with the given status was created in the last second, the
  window selects the jobs of the day with that status.
\<close>

lemma jobs_today_created:
  assumes "\<forall>j \<in> set js. created_on_day st d j \<longrightarrow> created_at j mod 86400000 < 86399000"
  shows "jobs_today st d js = filter (created_on_day st d) js"
  unfolding jobs_today_window
  using assms by (intro filter_cong refl) auto

text \<open>The two daily counts, with no condition on the table.\<close>

lemma getSyncStats_window:
  assumes "total_count_query e = QOk" and "active_count_query e = QOk"
    and "completed_count_query e = QOk" and "failed_count_query e = QOk"
  shows "completedToday (getSyncStats e s) =
      length (filter (\<lambda>j. created_on_day Completed (utc_day (now s)) j \<and>
                          created_at j mod 86400000 < 86399000) (review_sync_jobs s))"
    and "failedToday (getSyncStats e s) =
      length (filter (\<lambda>j. created_on_day Failed (utc_day (now s)) j \<and>
                          created_at j mod 86400000 < 86399000) (review_sync_jobs s))"
  using assms
  by (simp_all add: getSyncStats_def Let_def count_of_def or_zero_def jobs_today_window)

subsection \<open>The first effect of a sweep\<close>

lemma sweepBody_first_event:
  "\<exists>s2 rest. sweepBody (scheduler_ops e) s = Some (Inr (), s2) \<and>
      events s2 = events s @ (isRunning s, EvAccountsQuery) # rest"
proof -
  let ?s1 = "emit EvAccountsQuery s"
  let ?bs = "chunks_ref 5 (fetched e s)"
  show ?thesis
  proof (cases "fetched e s = []")
    case True
    then show ?thesis
      by (simp add: sweepBody_def scheduler_ops_def getAccountsForSync_eq events_emit)
  next
    case False
    have b: "sweepBody (scheduler_ops e) s = Some (batchLoop (scheduler_ops e) ?bs 0 ?s1)"
      using False
      by (simp add: sweepBody_def scheduler_ops_def getAccountsForSync_eq chunkArray_ref)
    have l: "fst (batchLoop (scheduler_ops e) ?bs 0 ?s1) = Inr () \<and>
      extends ?s1 (paced_trace (drop 0 ?bs)) (snd (batchLoop (scheduler_ops e) ?bs 0 ?s1)) \<and>
      now (snd (batchLoop (scheduler_ops e) ?bs 0 ?s1)) = now ?s1 + 30000 * (length ?bs - 1 - 0)"
      by (rule batchLoop_scheduler) simp
    then obtain rest where
      "events (snd (batchLoop (scheduler_ops e) ?bs 0 ?s1)) = events ?s1 @ rest"
      by (auto simp: extends_def)
    then have "events (snd (batchLoop (scheduler_ops e) ?bs 0 ?s1)) =
        events s @ (isRunning s, EvAccountsQuery) # rest"
      by (simp add: events_emit)
    then show ?thesis
      using b l by (cases "batchLoop (scheduler_ops e) ?bs 0 ?s1") simp
  qed
qed

lemma runDailySync_first_event:
  assumes "\<not> isRunning s"
  shows "\<exists>s' rest. runDailySync e s = Some s' \<and>
      events s' = events s @ (True, EvAccountsQuery) # rest"
proof -
  obtain s2 rest where "sweepBody (scheduler_ops e) (s\<lparr>isRunning := True\<rparr>) = Some (Inr (), s2)"
      "events s2 = events (s\<lparr>isRunning := True\<rparr>) @
         (isRunning (s\<lparr>isRunning := True\<rparr>), EvAccountsQuery) # rest"
    using sweepBody_first_event [of e "s\<lparr>isRunning := True\<rparr>"] by blast
  then show ?thesis
    using assms by (simp add: runDailySync_def runDailySync_with_def)
qed
section \<open>The claims\<close>

subsection \<open>C1: one active job per account\<close>

text \<open>
  C1. As stated the claim fails: when the dedup query itself fails, the dispatcher goes
  on and inserts a second pending job for an account that already has one (the
  counterexample below). What holds: when the store answers the dedup query,
  \<^verbatim>\<open>syncAccount\<close> returns without an insert and leaves the job table as it is
  whenever the account has a job with status pending or running, and a table with at
  most one active job per account is still such a table after the call.
\<close>

theorem dedup_keeps_one_active_job:
  assumes "dedup_query e (user_id a) = QOk"
  shows "((\<exists>j \<in> set (review_sync_jobs s). active_job_of (user_id a) j) \<longrightarrow>
            review_sync_jobs (snd (syncAccount e a s)) = review_sync_jobs s \<and>
            next_job_id (snd (syncAccount e a s)) = next_job_id s \<and>
            events (snd (syncAccount e a s)) =
              events s @ [(isRunning s, EvSyncStart (user_id a)),
                          (isRunning s, EvDedupQuery (user_id a))]) \<and>
         (at_most_one_active (review_sync_jobs s) \<longrightarrow>
            at_most_one_active (review_sync_jobs (snd (syncAccount e a s))))"
proof -
  let ?u = "user_id a"
  let ?js = "review_sync_jobs s"
  let ?js' = "review_sync_jobs (snd (syncAccount e a s))"
  let ?row = "pending_row e ?u False s"
  note fa = found_active_iff [OF assms, of s]
  have hit: "(\<exists>j \<in> set ?js. active_job_of ?u j) \<longrightarrow>
      ?js' = ?js \<and> next_job_id (snd (syncAccount e a s)) = next_job_id s \<and>
      events (snd (syncAccount e a s)) =
        events s @ [(isRunning s, EvSyncStart ?u), (isRunning s, EvDedupQuery ?u)]"
    using fa by (simp add: syncAccount_jobs syncAccount_next syncAccount_events_found)
  have inv: "at_most_one_active ?js'" if one: "at_most_one_active ?js"
  proof (cases "found_active e ?u s \<or> insert_query e ?u \<noteq> QOk")
    case True
    then show ?thesis using one by (simp add: syncAccount_jobs)
  next
    case False
    then have none: "filter (active_job_of ?u) ?js = []"
      using fa by (simp add: filter_empty_conv)
    have grown: "length (filter (active_job_of u) (?js @ [?row])) \<le> 1" for u
    proof (cases "u = ?u")
      case True
      then show ?thesis using none by (simp add: count_append_row)
    next
      case False
      then show ?thesis
        using one by (simp add: count_append_row at_most_one_active_iff)
    qed
    have "length (filter (active_job_of u) ?js') \<le> 1" for u
    proof (cases "worker_call e (next_job_id s) ?u = WOk \<or> update_query e (next_job_id s) \<noteq> QOk")
      case True
      then show ?thesis
        using False grown [of u] by (simp add: syncAccount_jobs)
    next
      case nok: False
      have "?js' = map (fail_row (next_job_id s) ''Failed to trigger worker sync'' (now s))
                     (?js @ [?row])"
        using False nok by (simp add: syncAccount_jobs)
      then show ?thesis
        using count_fail_rows [of u "next_job_id s" "''Failed to trigger worker sync''" "now s"
            "?js @ [?row]"] grown [of u]
        by simp
    qed
    then show ?thesis
      by (simp add: at_most_one_active_iff)
  qed
  show ?thesis
    using hit inv by blast
qed

text \<open>
  The account \<open>u1\<close> has one pending job, the dedup query is answered with an error,
  and after \<^verbatim>\<open>syncAccount\<close> the account has two pending jobs.
\<close>

theorem dedup_invariant_counterexample:
  "at_most_one_active (review_sync_jobs busy_store) \<and>
   map (\<lambda>j. (job_id j, tour_operator_id j, platform j, status j))
     (review_sync_jobs
        (snd (syncAccount env_dedup_down (select_account (locked_profile ''u1'')) busy_store))) =
     [(0, ''u1'', ''tripadvisor'', Pending), (1, ''u1'', ''tripadvisor'', Pending)] \<and>
   \<not> at_most_one_active (review_sync_jobs
        (snd (syncAccount env_dedup_down (select_account (locked_profile ''u1'')) busy_store)))"
  by (simp add: busy_store_def idle_scheduler_def new_scheduler_def pending_job_of_def
      at_most_one_active_def active_job_of_def active_status_def
      syncAccount_def getRunningJob_def createSyncJob_def triggerWorkerSync_def
      env_dedup_down_def env_ok_def answer_def emit_def select_account_def locked_profile_def
      Let_def)

theorem dedup_keeps_one_active_job_witness:
  "dedup_query env_ok (user_id (select_account (locked_profile ''u1''))) = QOk \<and>
   (\<exists>j \<in> set (review_sync_jobs busy_store).
      active_job_of (user_id (select_account (locked_profile ''u1''))) j) \<and>
   at_most_one_active (review_sync_jobs busy_store) \<and>
   review_sync_jobs (snd (syncAccount env_ok (select_account (locked_profile ''u1'')) busy_store)) =
     review_sync_jobs busy_store \<and>
   at_most_one_active (review_sync_jobs
     (snd (syncAccount env_ok (select_account (locked_profile ''u1'')) busy_store)))"
proof -
  have q: "dedup_query env_ok (user_id (select_account (locked_profile ''u1''))) = QOk"
    by (simp add: env_ok_def)
  have j: "\<exists>j \<in> set (review_sync_jobs busy_store).
      active_job_of (user_id (select_account (locked_profile ''u1''))) j"
    by (simp add: busy_store_def idle_scheduler_def new_scheduler_def pending_job_of_def
        active_job_of_def active_status_def select_account_def locked_profile_def)
  have i: "at_most_one_active (review_sync_jobs busy_store)"
    by (simp add: busy_store_def idle_scheduler_def new_scheduler_def at_most_one_active_def)
  show ?thesis
    using dedup_keeps_one_active_job [OF q, of busy_store] q j i by blast
qed

subsection \<open>C2: the flag \<^verbatim>\<open>isRunning\<close>\<close>

text \<open>
  C2. The flag \<^verbatim>\<open>isRunning\<close> is false in a new scheduler. A sweep that starts with the
  flag cleared returns with the flag cleared, whatever the three methods it calls do,
  so also when the account fetch, a dispatch or the pause throws and when no account
  is found. In the scheduler's own sweep the first effect is the account query, and it
  and every later effect (every dispatch step, every pause) is issued while the flag
  is set.
\<close>

theorem isRunning_cleared_on_every_path:
  assumes "\<not> isRunning s"
  shows "\<not> isRunning (new_scheduler ps js n t) \<and>
         (\<exists>s'. runDailySync_with os s = Some s' \<and> \<not> isRunning s') \<and>
         (\<exists>s' new. runDailySync e s = Some s' \<and> \<not> isRunning s' \<and>
             events s' = events s @ (True, EvAccountsQuery) # new \<and> (\<forall>x \<in> set new. fst x))"
proof -
  have "\<not> isRunning (new_scheduler ps js n t)"
    by (simp add: new_scheduler_def)
  moreover have "\<exists>s'. runDailySync_with os s = Some s' \<and> \<not> isRunning s'"
    using assms by (rule runDailySync_with_clears)
  moreover have "\<exists>s' new. runDailySync e s = Some s' \<and> \<not> isRunning s' \<and>
             events s' = events s @ (True, EvAccountsQuery) # new \<and> (\<forall>x \<in> set new. fst x)"
  proof -
    obtain s' new where 1: "runDailySync e s = Some s'" "\<not> isRunning s'"
        "events s' = events s @ new" "\<forall>x \<in> set new. fst x"
      using runDailySync_scheduler [OF assms, of e] by blast
    obtain s'' rest where 2: "runDailySync e s = Some s''"
        "events s'' = events s @ (True, EvAccountsQuery) # rest"
      using runDailySync_first_event [OF assms, of e] by blast
    have "new = (True, EvAccountsQuery) # rest"
      using 1(1,3) 2 by simp
    then have "\<forall>x \<in> set rest. fst x"
      using 1(4) by simp
    then show ?thesis
      using 1(1,2) 2 by auto
  qed
  ultimately show ?thesis by blast
qed

theorem isRunning_cleared_on_every_path_witness:
  "\<not> isRunning (idle_scheduler seven_profiles []) \<and>
   \<not> isRunning (new_scheduler [] [] 0 0) \<and>
   (\<exists>s'. runDailySync_with throwing_ops (idle_scheduler seven_profiles []) = Some s' \<and>
      \<not> isRunning s' \<and> events s' = [(True, EvSyncError ''daily_sync_error'')]) \<and>
   (\<exists>s' new. runDailySync env_ok (idle_scheduler seven_profiles []) = Some s' \<and>
      \<not> isRunning s' \<and> events s' = (True, EvAccountsQuery) # new \<and> list_all fst new)"
proof -
  have idle: "\<not> isRunning (idle_scheduler seven_profiles [])"
    "events (idle_scheduler seven_profiles []) = []"
    by (simp_all add: idle_scheduler_def new_scheduler_def)
  have thrown: "runDailySync_with throwing_ops (idle_scheduler seven_profiles []) =
      Some ((idle_scheduler seven_profiles [])\<lparr>events := [(True, EvSyncError ''daily_sync_error'')]\<rparr>)"
    by (simp add: runDailySync_with_def sweepBody_def throwing_ops_def idle_scheduler_def
        new_scheduler_def logSyncError_def emit_def)
  show ?thesis
    using isRunning_cleared_on_every_path [OF idle(1), of "[]" "[]" 0 0 throwing_ops env_ok]
      idle thrown
    by (simp add: list_all_iff)
qed

subsection \<open>C3: a sweep during a sweep\<close>

text \<open>
  C3. \<^verbatim>\<open>runDailySync\<close> called while the flag \<^verbatim>\<open>isRunning\<close> is set returns at once and
  leaves the whole state as it is: the log has no new entry (no account query is
  issued), the job table is the same, and the flag stays set.
\<close>

theorem overlapping_sweep_is_noop:
  assumes "isRunning s"
  shows "runDailySync_with os s = Some s \<and> runDailySync e s = Some s"
  using assms by (simp add: runDailySync_def runDailySync_with_def)

theorem overlapping_sweep_is_noop_witness:
  "isRunning ((idle_scheduler seven_profiles [])\<lparr>isRunning := True\<rparr>) \<and>
   runDailySync_with throwing_ops ((idle_scheduler seven_profiles [])\<lparr>isRunning := True\<rparr>) =
     Some ((idle_scheduler seven_profiles [])\<lparr>isRunning := True\<rparr>) \<and>
   runDailySync env_ok ((idle_scheduler seven_profiles [])\<lparr>isRunning := True\<rparr>) =
     Some ((idle_scheduler seven_profiles [])\<lparr>isRunning := True\<rparr>)"
  using overlapping_sweep_is_noop
    [of "(idle_scheduler seven_profiles [])\<lparr>isRunning := True\<rparr>" throwing_ops env_ok]
  by simp

subsection \<open>C4: batches and pacing\<close>

text \<open>
  C4. A sweep that finds \<open>N > 0\<close> accounts cuts them into \<open>(N + 4) div 5\<close> batches,
  that is \<open>ceil (N / 5)\<close>, each of 5 accounts but possibly the last, starts the accounts
  batch after batch in the order of the list, and pauses 30000 ms exactly once between
  two consecutive batches and not after the last: the pauses of the sweep are
  \<open>ceil (N / 5) - 1\<close> pauses of 30000 ms, and the clock has advanced by their sum.
\<close>

theorem sweep_batches_and_pacing:
  assumes "\<not> isRunning s" and "accounts_query e = QOk"
    and "accounts = map select_account (filter locked_integration (profiles s))"
    and "0 < length accounts"
  shows "\<exists>batches s' new.
      chunkArray accounts 5 = Some batches \<and>
      length batches = (length accounts + 4) div 5 \<and>
      concat batches = accounts \<and>
      (\<forall>b \<in> set batches. length b \<le> 5 \<and> b \<noteq> []) \<and>
      (\<forall>i. i + 1 < length batches \<longrightarrow> length (batches ! i) = 5) \<and>
      runDailySync e s = Some s' \<and> events s' = events s @ new \<and>
      pacing_view new = paced_trace batches \<and>
      pauses (map snd new) = replicate ((length accounts + 4) div 5 - 1) 30000 \<and>
      now s' = now s + ((length accounts + 4) div 5 - 1) * 30000"
proof -
  let ?bs = "chunks_ref 5 accounts"
  have f: "fetched e s = accounts"
    using assms(2,3) by (simp add: fetched_def)
  obtain s' new where run: "runDailySync e s = Some s'" "events s' = events s @ new"
      "pacing_view new = paced_trace ?bs" "now s' = now s + 30000 * (length ?bs - 1)"
    using runDailySync_scheduler [OF assms(1), of e] unfolding f by blast
  have len: "length ?bs = (length accounts + 4) div 5"
    by (simp add: length_chunks_ref)
  have "pauses (map snd new) = pauses (pacing_view new)"
    by (simp add: pacing_view_def pauses_filter_pacing)
  then have p: "pauses (map snd new) = replicate ((length accounts + 4) div 5 - 1) 30000"
    using run(3) len by (simp add: pauses_paced_trace)
  have "chunkArray accounts 5 = Some ?bs"
    by (simp add: chunkArray_ref)
  moreover have "concat ?bs = accounts"
    by (simp add: concat_chunks_ref)
  moreover have "\<forall>b \<in> set ?bs. length b \<le> 5 \<and> b \<noteq> []"
    using chunks_ref_le [of 5 _ accounts] by auto
  moreover have "\<forall>i. i + 1 < length ?bs \<longrightarrow> length (?bs ! i) = 5"
    by (simp add: chunks_ref_full)
  moreover have "now s' = now s + ((length accounts + 4) div 5 - 1) * 30000"
    using run(4) len by simp
  ultimately show ?thesis
    using run(1,2,3) len p by blast
qed

theorem sweep_batches_and_pacing_witness:
  "\<not> isRunning (idle_scheduler seven_profiles []) \<and> accounts_query env_ok = QOk \<and>
   0 < length (map select_account (filter locked_integration
                 (profiles (idle_scheduler seven_profiles [])))) \<and>
   (\<exists>batches s' new.
      chunkArray (map select_account seven_profiles) 5 = Some batches \<and>
      length batches = 2 \<and>
      runDailySync env_ok (idle_scheduler seven_profiles []) = Some s' \<and>
      events s' = new \<and>
      pacing_view new = paced_trace batches \<and>
      pauses (map snd new) = [30000] \<and>
      now s' = 1762092030000)"
proof -
  have ps: "profiles (idle_scheduler seven_profiles []) = seven_profiles"
    by (simp add: idle_scheduler_def new_scheduler_def)
  have fl: "filter locked_integration seven_profiles = seven_profiles"
    by (simp add: seven_profiles_def locked_integration_def locked_profile_def)
  have n: "length seven_profiles = 7"
    by (simp add: seven_profiles_def)
  have idle: "\<not> isRunning (idle_scheduler seven_profiles [])"
    "events (idle_scheduler seven_profiles []) = []"
    "now (idle_scheduler seven_profiles []) = 1762092000000"
    by (simp_all add: idle_scheduler_def new_scheduler_def)
  have ok: "accounts_query env_ok = QOk"
    by (simp add: env_ok_def)
  show ?thesis
    using sweep_batches_and_pacing [of "idle_scheduler seven_profiles []" env_ok
        "map select_account seven_profiles"] idle ok
    by (simp add: ps fl n) blast
qed

subsection \<open>C5: a failed dispatch does not stop the batch\<close>



subsection \<open>C6: the manual trigger and the lock\<close>

text \<open>
  C6. The claim asks the manual trigger for the eligibility test of the sweep: a
  location and a locked integration. The query of \<^verbatim>\<open>triggerManualSync\<close> only asks
  for a location, so the account below, which the sweep would not fetch because its
  integration is not locked, is dispatched and gets a job row.
\<close>

theorem manual_sync_ignores_lock:
  "\<not> locked_integration (unlocked_profile ''u1'') \<and>
   fetched env_ok unlocked_store = [] \<and>
   (\<exists>s'. triggerManualSync env_ok (Some ''u1'') unlocked_store = Some (Inr s') \<and>
      map (\<lambda>j. (job_id j, tour_operator_id j, status j)) (review_sync_jobs s') =
        [(0, ''u1'', Pending)] \<and>
      map snd (events s') =
        [EvSyncStart ''u1'', EvDedupQuery ''u1'', EvInsert ''u1'', EvWorkerCall 0 ''u1''])"
  by (simp add: unlocked_store_def unlocked_profile_def locked_profile_def
      locked_integration_def fetched_def idle_scheduler_def new_scheduler_def
      triggerManualSync_def answer_def env_ok_def select_account_def
      syncAccount_def getRunningJob_def createSyncJob_def triggerWorkerSync_def emit_def Let_def)

subsection \<open>C7: the dedup check fails open\<close>

text \<open>
  C7. When the dedup query is answered with an error or throws, \<^verbatim>\<open>getRunningJob\<close>
  returns null without throwing and \<^verbatim>\<open>syncAccount\<close> goes on to the insert: the next
  effect after the dedup query is the insert, and when the insert succeeds the job
  table has one more row, for this account.
\<close>

theorem dedup_failure_fails_open:
  assumes "dedup_query e (user_id a) \<noteq> QOk"
  shows "getRunningJob e (user_id a) s = (None, emit (EvDedupQuery (user_id a)) s) \<and>
     (\<exists>rest. events (snd (syncAccount e a s)) =
        events s @ [(isRunning s, EvSyncStart (user_id a)),
                    (isRunning s, EvDedupQuery (user_id a)),
                    (isRunning s, EvInsert (user_id a))] @ rest) \<and>
     (insert_query e (user_id a) = QOk \<longrightarrow>
        length (review_sync_jobs (snd (syncAccount e a s))) = Suc (length (review_sync_jobs s)) \<and>
        tour_operator_id (last (review_sync_jobs (snd (syncAccount e a s)))) = user_id a)"
proof -
  have nf: "\<not> found_active e (user_id a) s"
    using assms by (rule found_active_failed)
  have "getRunningJob e (user_id a) s = (None, emit (EvDedupQuery (user_id a)) s)"
    using getRunningJob_failed [OF assms, of s] getRunningJob_snd [of e "user_id a" s]
    by (cases "getRunningJob e (user_id a) s") simp
  moreover have "insert_query e (user_id a) = QOk \<longrightarrow>
        length (review_sync_jobs (snd (syncAccount e a s))) = Suc (length (review_sync_jobs s)) \<and>
        tour_operator_id (last (review_sync_jobs (snd (syncAccount e a s)))) = user_id a"
    using nf by (simp add: syncAccount_jobs last_map fail_row_def pending_row_def)
  ultimately show ?thesis
    using syncAccount_events_not_found [OF nf] by blast
qed

theorem dedup_failure_fails_open_witness:
  "dedup_query env_dedup_down (user_id (select_account (locked_profile ''u1''))) \<noteq> QOk \<and>
   insert_query env_dedup_down (user_id (select_account (locked_profile ''u1''))) = QOk \<and>
   getRunningJob env_dedup_down ''u1'' busy_store = (None, emit (EvDedupQuery ''u1'') busy_store) \<and>
   (\<exists>rest. events (snd (syncAccount env_dedup_down (select_account (locked_profile ''u1''))
                           busy_store)) =
      [(False, EvSyncStart ''u1''), (False, EvDedupQuery ''u1''), (False, EvInsert ''u1'')] @ rest) \<and>
   length (review_sync_jobs (snd (syncAccount env_dedup_down (select_account (locked_profile ''u1''))
                                    busy_store))) = 2"
proof -
  let ?a = "select_account (locked_profile ''u1'')"
  have u: "user_id ?a = ''u1''"
    by (simp add: select_account_def locked_profile_def)
  have d: "dedup_query env_dedup_down (user_id ?a) \<noteq> QOk"
    by (simp add: env_dedup_down_def)
  have i: "insert_query env_dedup_down (user_id ?a) = QOk"
    by (simp add: env_dedup_down_def env_ok_def)
  have s: "events busy_store = []" "isRunning busy_store = False"
      "length (review_sync_jobs busy_store) = 1"
    by (simp_all add: busy_store_def idle_scheduler_def new_scheduler_def)
  show ?thesis
    using dedup_failure_fails_open [OF d, of busy_store] d i
    by (simp add: u s)
qed

subsection \<open>C8: the four counts\<close>

text \<open>
  C8. As stated the claim fails: \<open>completedToday\<close> does not count the jobs that
  were completed on the current UTC day, it counts the completed jobs that were
  created on it (the counterexample below is a job created the day before and
  completed today). What holds, when the four queries are answered:
  \<open>totalAccounts\<close> counts the profiles with a location and a locked integration,
  \<open>activeJobs\<close> the jobs pending or running, and \<open>completedToday\<close> and
  \<open>failedToday\<close> the jobs with status completed and failed that were created on the
  current UTC calendar day, provided none of these jobs of today was created in the
  last second of the day; the other rows of the table are under no condition. With
  three eligible accounts, one pending job and two completed jobs created today the
  result is 3, 1, 2, 0.
\<close>

theorem getSyncStats_counts:
  assumes "total_count_query e = QOk" and "active_count_query e = QOk"
    and "completed_count_query e = QOk" and "failed_count_query e = QOk"
    and "\<forall>j \<in> set (review_sync_jobs s).
           platform j = ''tripadvisor'' \<and> (status j = Completed \<or> status j = Failed) \<and>
           utc_day (created_at j) = utc_day (now s) \<longrightarrow>
           created_at j mod 86400000 < 86399000"
  shows "getSyncStats e s =
     \<lparr>totalAccounts = length (filter locked_integration (profiles s)),
      activeJobs = length (filter (\<lambda>j. platform j = ''tripadvisor'' \<and>
                              (status j = Pending \<or> status j = Running)) (review_sync_jobs s)),
      completedToday =
        length (filter (created_on_day Completed (utc_day (now s))) (review_sync_jobs s)),
      failedToday =
        length (filter (created_on_day Failed (utc_day (now s))) (review_sync_jobs s))\<rparr>"
proof -
  have c: "\<forall>j \<in> set (review_sync_jobs s). created_on_day Completed (utc_day (now s)) j \<longrightarrow>
      created_at j mod 86400000 < 86399000"
    using assms(5) by (simp add: created_on_day_def)
  have f: "\<forall>j \<in> set (review_sync_jobs s). created_on_day Failed (utc_day (now s)) j \<longrightarrow>
      created_at j mod 86400000 < 86399000"
    using assms(5) by (simp add: created_on_day_def)
  show ?thesis
    using assms(1-4)
    by (simp add: getSyncStats_def Let_def count_of_def or_zero_def active_status_def
        jobs_today_created [OF c] jobs_today_created [OF f])
qed

theorem completedToday_counterexample:
  "completed_count_query env_ok = QOk \<and>
   length (filter (completed_on_day (utc_day (now overnight_store)))
             (review_sync_jobs overnight_store)) = 1 \<and>
   completedToday (getSyncStats env_ok overnight_store) = 0"
  by (simp add: overnight_store_def idle_scheduler_def new_scheduler_def completed_job_of_def
      completed_on_day_def utc_day_def getSyncStats_def env_ok_def count_of_def or_zero_def
      jobs_today_def day_start_def day_2359_def Let_def)

theorem getSyncStats_counts_witness:
  "total_count_query env_ok = QOk \<and> active_count_query env_ok = QOk \<and>
   completed_count_query env_ok = QOk \<and> failed_count_query env_ok = QOk \<and>
   list_all (\<lambda>j. platform j = ''tripadvisor'' \<and> (status j = Completed \<or> status j = Failed) \<and>
                  utc_day (created_at j) = utc_day (now report_store) \<longrightarrow>
                  created_at j mod 86400000 < 86399000) (review_sync_jobs report_store) \<and>
   \<not> list_all (\<lambda>j. created_at j mod 86400000 < 86399000) (review_sync_jobs report_store) \<and>
   length (filter (created_on_day Completed (utc_day (now report_store)))
             (review_sync_jobs report_store)) = 2 \<and>
   getSyncStats env_ok report_store =
     \<lparr>totalAccounts = 3, activeJobs = 1, completedToday = 2, failedToday = 0\<rparr>"
proof -
  have q: "total_count_query env_ok = QOk" "active_count_query env_ok = QOk"
      "completed_count_query env_ok = QOk" "failed_count_query env_ok = QOk"
    by (simp_all add: env_ok_def)
  have st: "profiles report_store = map locked_profile [''A'', ''B'', ''C'']"
      "review_sync_jobs report_store =
         [completed_job_of 0 ''A'' 1762048800000 1762048860000,
          completed_job_of 1 ''B'' 1762048800000 1762048890000,
          pending_job_of 2 ''C'', stale_job]"
      "now report_store = 1762092000000"
    by (simp_all add: report_store_def idle_scheduler_def new_scheduler_def)
  have w: "\<forall>j \<in> set (review_sync_jobs report_store).
      platform j = ''tripadvisor'' \<and> (status j = Completed \<or> status j = Failed) \<and>
      utc_day (created_at j) = utc_day (now report_store) \<longrightarrow>
      created_at j mod 86400000 < 86399000"
    by (simp add: st completed_job_of_def pending_job_of_def stale_job_def)
  have stale: "\<not> list_all (\<lambda>j. created_at j mod 86400000 < 86399000)
      (review_sync_jobs report_store)"
    by (simp add: st completed_job_of_def pending_job_of_def stale_job_def)
  have n: "length (filter (created_on_day Completed (utc_day (now report_store)))
             (review_sync_jobs report_store)) = 2"
    by (simp add: st completed_job_of_def pending_job_of_def stale_job_def created_on_day_def
        utc_day_def)
  have "getSyncStats env_ok report_store =
     \<lparr>totalAccounts = 3, activeJobs = 1, completedToday = 2, failedToday = 0\<rparr>"
    unfolding getSyncStats_counts [OF q w]
    by (simp add: st locked_integration_def locked_profile_def completed_job_of_def
        pending_job_of_def stale_job_def created_on_day_def utc_day_def)
  then show ?thesis
    using q w stale n by (simp add: list_all_iff)
qed

subsection \<open>C9: \<^verbatim>\<open>chunkArray\<close> partitions its input\<close>

text \<open>
  C9. For every list and every positive batch size \<^verbatim>\<open>chunkArray\<close> returns, and what
  it returns are batches whose concatenation is the input list (so every element is
  in exactly one batch, in the original order), every batch is non-empty and has at
  most \<open>size\<close> elements, and every batch but the last has exactly \<open>size\<close> elements.
\<close>

theorem chunkArray_partition:
  assumes "0 < sz"
  shows "\<exists>batches. chunkArray array sz = Some batches \<and> concat batches = array \<and>
           (\<forall>b \<in> set batches. length b \<le> sz \<and> b \<noteq> []) \<and>
           (\<forall>i. i + 1 < length batches \<longrightarrow> length (batches ! i) = sz)"
  using assms
  by (simp add: chunkArray_ref concat_chunks_ref chunks_ref_le chunks_ref_full)

theorem chunkArray_partition_witness:
  "0 < (3::nat) \<and>
   (\<exists>batches. chunkArray [1, 2, 3, 4, 5, 6, 7 :: nat] 3 = Some batches \<and>
       batches = [[1, 2, 3], [4, 5, 6], [7]] \<and>
       concat batches = [1, 2, 3, 4, 5, 6, 7] \<and>
       (\<forall>b \<in> set batches. length b \<le> 3 \<and> b \<noteq> []) \<and>
       (\<forall>i. i + 1 < length batches \<longrightarrow> length (batches ! i) = 3))"
proof -
  have run: "chunkArray [1, 2, 3, 4, 5, 6, 7 :: nat] 3 = Some [[1, 2, 3], [4, 5, 6], [7]]"
    by code_simp
  show ?thesis
    using chunkArray_partition [of 3 "[1, 2, 3, 4, 5, 6, 7 :: nat]"] run by simp
qed

subsection \<open>C10: the row \<^verbatim>\<open>createSyncJob\<close> inserts\<close>

text \<open>
  C10. A successful \<^verbatim>\<open>createSyncJob\<close> appends exactly one row, which it returns:
  status pending, the flag \<open>full_history\<close> as passed, both counters zero, and
  \<open>started_at\<close> set to the time of the call, while the row is still pending. The
  row \<^verbatim>\<open>syncAccount\<close> adds has \<open>full_history = False\<close>.
\<close>

theorem createSyncJob_initial_row:
  assumes "insert_query e u = QOk"
  shows "(\<exists>j. createSyncJob e u fh s =
              (Some j, (emit (EvInsert u) s)\<lparr>review_sync_jobs := review_sync_jobs s @ [j],
                                            next_job_id := Suc (next_job_id s)\<rparr>) \<and>
           tour_operator_id j = u \<and> platform j = ''tripadvisor'' \<and>
           status j = Pending \<and> full_history j = fh \<and>
           total_available j = 0 \<and> imported_count j = 0 \<and>
           started_at j = Some (now s) \<and> completed_at j = None \<and> job_error j = None) \<and>
   (length (review_sync_jobs (snd (syncAccount e a s))) = Suc (length (review_sync_jobs s)) \<longrightarrow>
      full_history (last (review_sync_jobs (snd (syncAccount e a s)))) = False \<and>
      total_available (last (review_sync_jobs (snd (syncAccount e a s)))) = 0 \<and>
      imported_count (last (review_sync_jobs (snd (syncAccount e a s)))) = 0 \<and>
      started_at (last (review_sync_jobs (snd (syncAccount e a s)))) = Some (now s))"
proof -
  have 2: "\<exists>j. createSyncJob e u fh s =
              (Some j, (emit (EvInsert u) s)\<lparr>review_sync_jobs := review_sync_jobs s @ [j],
                                            next_job_id := Suc (next_job_id s)\<rparr>) \<and>
           tour_operator_id j = u \<and> platform j = ''tripadvisor'' \<and>
           status j = Pending \<and> full_history j = fh \<and>
           total_available j = 0 \<and> imported_count j = 0 \<and>
           started_at j = Some (now s) \<and> completed_at j = None \<and> job_error j = None"
    using assms by (simp add: createSyncJob_def Let_def emit_def)
  have 3: "length (review_sync_jobs (snd (syncAccount e a s))) = Suc (length (review_sync_jobs s)) \<longrightarrow>
      full_history (last (review_sync_jobs (snd (syncAccount e a s)))) = False \<and>
      total_available (last (review_sync_jobs (snd (syncAccount e a s)))) = 0 \<and>
      imported_count (last (review_sync_jobs (snd (syncAccount e a s)))) = 0 \<and>
      started_at (last (review_sync_jobs (snd (syncAccount e a s)))) = Some (now s)"
    by (simp add: syncAccount_jobs last_map fail_row_def pending_row_def)
  show ?thesis
    using 2 3 by blast
qed

theorem createSyncJob_initial_row_witness:
  "insert_query env_ok ''A'' = QOk \<and>
   (\<exists>j. fst (createSyncJob env_ok ''A'' True store_abc) = Some j \<and>
      review_sync_jobs (snd (createSyncJob env_ok ''A'' True store_abc)) =
        review_sync_jobs store_abc @ [j] \<and>
      status j = Pending \<and> full_history j = True \<and> total_available j = 0 \<and>
      imported_count j = 0 \<and> started_at j = Some 1762092000000) \<and>
   length (review_sync_jobs (snd (syncAccount env_ok (batch_abc ! 0) store_abc))) =
     Suc (length (review_sync_jobs store_abc)) \<and>
   full_history (last (review_sync_jobs (snd (syncAccount env_ok (batch_abc ! 0) store_abc)))) = False \<and>
   started_at (last (review_sync_jobs (snd (syncAccount env_ok (batch_abc ! 0) store_abc)))) =
     Some 1762092000000"
proof -
  have i: "insert_query env_ok ''A'' = QOk"
    by (simp add: env_ok_def)
  have n: "now store_abc = 1762092000000"
    by (simp add: store_abc_def idle_scheduler_def new_scheduler_def)
  have g: "length (review_sync_jobs (snd (syncAccount env_ok (batch_abc ! 0) store_abc))) =
     Suc (length (review_sync_jobs store_abc))"
    by (simp add: syncAccount_jobs found_active_def getRunningJob_ok_None env_ok_def
        batch_abc_def select_account_def locked_profile_def store_abc_def idle_scheduler_def
        new_scheduler_def completed_job_of_def active_job_of_def active_status_def)
  show ?thesis
    using createSyncJob_initial_row [OF i, of True store_abc "batch_abc ! 0"] i g
    by (auto simp: n)
qed

end
